theory Spec2Isabelle
  imports Main "HOL-Library.AList" "HOL-Library.Multiset" "HOL-Library.Sublist"
begin

section \<open>The replicate configuration validator\<close>

text \<open>
  A shallow embedding of \<^verbatim>\<open>ReplicateConfigValidator\<close> (package \<^verbatim>\<open>replicateutil\<close>).
  The protobuf messages are records; a Go pointer to a message is an \<open>option\<close>
  (\<open>None\<close> is \<^verbatim>\<open>nil\<close>); Go strings are byte strings, here \<open>string\<close>.
  Every \<^verbatim>\<open>fmt.Errorf\<close> of the source is one constructor of \<open>error\<close> carrying the
  values the message is formatted from. A method that mutates the validator returns the
  validator next to its error; \<open>None\<close> is the \<^verbatim>\<open>nil\<close> error.
\<close>

subsection \<open>Messages and their generated getters\<close>

record ConnectionParam =
  uri :: string
  token :: string

record MilvusCluster =
  cluster_id :: string
  connection_param :: "ConnectionParam option"
  pchannels :: "string list"

record CrossClusterTopology =
  source_cluster_id :: string
  target_cluster_id :: string

record ReplicateConfiguration =
  clusters :: "MilvusCluster option list"
  cross_cluster_topology :: "CrossClusterTopology option list"

text \<open>
  The getters generated for protobuf messages accept a \<^verbatim>\<open>nil\<close> receiver and
  return the zero value of the field then.
\<close>

fun GetClusterId :: "MilvusCluster option \<Rightarrow> string" where
  "GetClusterId None = []"
| "GetClusterId (Some c) = cluster_id c"

fun GetConnectionParam :: "MilvusCluster option \<Rightarrow> ConnectionParam option" where
  "GetConnectionParam None = None"
| "GetConnectionParam (Some c) = connection_param c"

fun GetPchannels :: "MilvusCluster option \<Rightarrow> string list" where
  "GetPchannels None = []"
| "GetPchannels (Some c) = pchannels c"

fun GetUri :: "ConnectionParam option \<Rightarrow> string" where
  "GetUri None = []"
| "GetUri (Some p) = uri p"

fun GetToken :: "ConnectionParam option \<Rightarrow> string" where
  "GetToken None = []"
| "GetToken (Some p) = token p"

fun GetSourceClusterId :: "CrossClusterTopology option \<Rightarrow> string" where
  "GetSourceClusterId None = []"
| "GetSourceClusterId (Some t) = source_cluster_id t"

fun GetTargetClusterId :: "CrossClusterTopology option \<Rightarrow> string" where
  "GetTargetClusterId None = []"
| "GetTargetClusterId (Some t) = target_cluster_id t"

fun GetClusters :: "ReplicateConfiguration option \<Rightarrow> MilvusCluster option list" where
  "GetClusters None = []"
| "GetClusters (Some c) = clusters c"

fun GetCrossClusterTopology ::
  "ReplicateConfiguration option \<Rightarrow> CrossClusterTopology option list" where
  "GetCrossClusterTopology None = []"
| "GetCrossClusterTopology (Some c) = cross_cluster_topology c"

subsection \<open>Errors\<close>

datatype error =
    ErrConfigNil
  | ErrClustersEmpty
  | ErrClusterNil nat
  | ErrEmptyClusterID nat
  | ErrClusterIDWhitespace nat string
  | ErrNilConnectionParam string
  | ErrEmptyURI string
  | ErrInvalidURI string string
  | ErrDuplicateURI string string string
  | ErrEmptyPChannels string
  | ErrEmptyPChannel string nat
  | ErrDuplicatePChannel string string
  | ErrPChannelCount string nat nat string
  | ErrDuplicateClusterID string
  | ErrNotIncluded string
  | ErrPChannelsMismatch "string list" "string list"
  | ErrTopologyNil nat
  | ErrUnknownSource nat string
  | ErrUnknownTarget nat string
  | ErrDuplicateEdge string
  | ErrMultipleCenters
  | ErrNoCenter
  | ErrNotStar string int int
  | ErrPChannelsDecrease string nat nat
  | ErrPChannelsNotPreserved string "string list" "string list"
  | ErrURIChanged string string string
  | ErrTokenChanged string
  | ErrGrowthClusterCount nat nat
  | ErrGrowthClusterMissing string
  | ErrGrowthEdgeCount nat nat
  | ErrGrowthEdgeMissing string

subsection \<open>The validator\<close>

text \<open>
  A Go \<^verbatim>\<open>map[string]*MilvusCluster\<close> is an association list whose keys are
  pairwise distinct: \<open>map_of\<close> reads it, \<open>AList.update\<close> writes it (replacing the
  value of a key already there), \<open>length\<close> is \<^verbatim>\<open>len\<close>, and \<^verbatim>\<open>range\<close>
  visits the keys in the order of the list. Go leaves that order unspecified; in this
  validator only the cluster named by an error message depends on it.
\<close>

type_synonym cluster_map = "(string \<times> MilvusCluster option) list"

record ReplicateConfigValidator =
  currentClusterID :: string
  currentPChannels :: "string list"
  clusterMap :: cluster_map
  incomingConfig :: "ReplicateConfiguration option"
  currentConfig :: "ReplicateConfiguration option"
  isPChannelIncreasing :: bool

definition NewReplicateConfigValidator ::
  "ReplicateConfiguration option \<Rightarrow> ReplicateConfiguration option \<Rightarrow> string \<Rightarrow> string list
    \<Rightarrow> ReplicateConfigValidator" where
  "NewReplicateConfigValidator incoming current cid pchs =
     \<lparr> currentClusterID = cid, currentPChannels = pchs, clusterMap = [],
       incomingConfig = incoming, currentConfig = current, isPChannelIncreasing = False \<rparr>"

definition IsPChannelIncreasing :: "ReplicateConfigValidator \<Rightarrow> bool" where
  "IsPChannelIncreasing v = isPChannelIncreasing v"

subsection \<open>equalIgnoreOrder\<close>

text \<open>
  \<^verbatim>\<open>counts\<close> is a \<^verbatim>\<open>map[string]int\<close>: reading a key that is absent gives 0, so
  the map is a total function that is 0 almost everywhere.
\<close>

fun count_up :: "(string \<Rightarrow> int) \<Rightarrow> string list \<Rightarrow> (string \<Rightarrow> int)" where
  "count_up counts [] = counts"
| "count_up counts (x # xs) = count_up (counts(x := counts x + 1)) xs"

fun count_down :: "(string \<Rightarrow> int) \<Rightarrow> string list \<Rightarrow> bool" where
  "count_down counts [] = True"
| "count_down counts (x # xs) =
     (if counts x = 0 then False else count_down (counts(x := counts x - 1)) xs)"

definition equalIgnoreOrder :: "string list \<Rightarrow> string list \<Rightarrow> bool" where
  "equalIgnoreOrder a b =
     (if length a \<noteq> length b then False
      else count_down (count_up (\<lambda>_. 0) a) b)"

subsection \<open>validateClusterBasic\<close>

definition ContainsAny :: "string \<Rightarrow> string \<Rightarrow> bool" where
  "ContainsAny s chars = list_ex (\<lambda>c. c \<in> set chars) s"

definition whitespace :: string where
  "whitespace = [CHR '' '', CHR 0x09, CHR 0x0A, CHR 0x0D]"

text \<open>The inner loop over the pchannels of one cluster, with its index \<open>j\<close> and
  \<^verbatim>\<open>pchannelSet\<close>.\<close>

fun check_pchannels :: "string \<Rightarrow> nat \<Rightarrow> string set \<Rightarrow> string list \<Rightarrow> error option" where
  "check_pchannels clusterID j pchannelSet [] = None"
| "check_pchannels clusterID j pchannelSet (p # ps) =
     (if p = [] then Some (ErrEmptyPChannel clusterID j)
      else if p \<in> pchannelSet then Some (ErrDuplicatePChannel clusterID p)
      else check_pchannels clusterID (Suc j) (insert p pchannelSet) ps)"

text \<open>
  The outer loop. \<open>parse_ok u\<close> stands for \<^verbatim>\<open>url.ParseRequestURI(u)\<close> returning
  no error; that function belongs to Go's standard library and is a parameter here.
  The loop carries the index \<open>i\<close>, \<^verbatim>\<open>expectedPchannelCount\<close>,
  \<^verbatim>\<open>firstClusterID\<close> and \<^verbatim>\<open>uriSet\<close>; the validator's \<^verbatim>\<open>clusterMap\<close> keeps
  what was inserted before an error.
\<close>

fun validateClusterBasic_loop ::
  "(string \<Rightarrow> bool) \<Rightarrow> nat \<Rightarrow> nat \<Rightarrow> string \<Rightarrow> (string \<rightharpoonup> string)
    \<Rightarrow> MilvusCluster option list \<Rightarrow> ReplicateConfigValidator
    \<Rightarrow> error option \<times> ReplicateConfigValidator" where
  "validateClusterBasic_loop parse_ok i expectedPchannelCount firstClusterID uriSet [] v = (None, v)"
| "validateClusterBasic_loop parse_ok i expectedPchannelCount firstClusterID uriSet (cluster # rest) v =
     (if cluster = None then (Some (ErrClusterNil i), v)
      else let clusterID = GetClusterId cluster in
      if clusterID = [] then (Some (ErrEmptyClusterID i), v)
      else if ContainsAny clusterID whitespace then (Some (ErrClusterIDWhitespace i clusterID), v)
      else let connParam = GetConnectionParam cluster in
      if connParam = None then (Some (ErrNilConnectionParam clusterID), v)
      else let u = GetUri connParam in
      if u = [] then (Some (ErrEmptyURI clusterID), v)
      else if \<not> parse_ok u then (Some (ErrInvalidURI clusterID u), v)
      else case uriSet u of
        Some existingClusterID \<Rightarrow> (Some (ErrDuplicateURI u existingClusterID clusterID), v)
      | None \<Rightarrow>
      let uriSet' = uriSet(u \<mapsto> clusterID);
          pchs = GetPchannels cluster in
      if length pchs = 0 then (Some (ErrEmptyPChannels clusterID), v)
      else case check_pchannels clusterID 0 {} pchs of
        Some e \<Rightarrow> (Some e, v)
      | None \<Rightarrow>
      if i \<noteq> 0 \<and> length pchs \<noteq> expectedPchannelCount
      then (Some (ErrPChannelCount clusterID (length pchs) expectedPchannelCount firstClusterID), v)
      else let expectedPchannelCount' = (if i = 0 then length pchs else expectedPchannelCount);
               firstClusterID' = (if i = 0 then clusterID else firstClusterID) in
      if map_of (clusterMap v) clusterID \<noteq> None then (Some (ErrDuplicateClusterID clusterID), v)
      else validateClusterBasic_loop parse_ok (Suc i) expectedPchannelCount' firstClusterID' uriSet' rest
             (v\<lparr>clusterMap := AList.update clusterID cluster (clusterMap v)\<rparr>))"

definition validateClusterBasic ::
  "(string \<Rightarrow> bool) \<Rightarrow> MilvusCluster option list \<Rightarrow> ReplicateConfigValidator
    \<Rightarrow> error option \<times> ReplicateConfigValidator" where
  "validateClusterBasic parse_ok cls v = validateClusterBasic_loop parse_ok 0 0 [] Map.empty cls v"

subsection \<open>validateRelevance\<close>

definition validateRelevance :: "ReplicateConfigValidator \<Rightarrow> error option" where
  "validateRelevance v =
     (case map_of (clusterMap v) (currentClusterID v) of
        None \<Rightarrow> Some (ErrNotIncluded (currentClusterID v))
      | Some currentCluster \<Rightarrow>
          if \<not> equalIgnoreOrder (currentPChannels v) (GetPchannels currentCluster)
          then Some (ErrPChannelsMismatch (currentPChannels v) (GetPchannels currentCluster))
          else None)"

subsection \<open>validateTopologyEdgeUniqueness\<close>

definition edgeKey :: "string \<Rightarrow> string \<Rightarrow> string" where
  "edgeKey sourceClusterID targetClusterID = sourceClusterID @ ''->'' @ targetClusterID"

fun edge_loop ::
  "cluster_map \<Rightarrow> nat \<Rightarrow> string set \<Rightarrow> CrossClusterTopology option list \<Rightarrow> error option" where
  "edge_loop cm i edgeSet [] = None"
| "edge_loop cm i edgeSet (topology # rest) =
     (if topology = None then Some (ErrTopologyNil i)
      else let sourceClusterID = GetSourceClusterId topology;
               targetClusterID = GetTargetClusterId topology in
      if map_of cm sourceClusterID = None then Some (ErrUnknownSource i sourceClusterID)
      else if map_of cm targetClusterID = None then Some (ErrUnknownTarget i targetClusterID)
      else let k = edgeKey sourceClusterID targetClusterID in
      if k \<in> edgeSet then Some (ErrDuplicateEdge k)
      else edge_loop cm (Suc i) (insert k edgeSet) rest)"

definition validateTopologyEdgeUniqueness ::
  "ReplicateConfigValidator \<Rightarrow> CrossClusterTopology option list \<Rightarrow> error option" where
  "validateTopologyEdgeUniqueness v topologies =
     (if length topologies = 0 then None
      else edge_loop (clusterMap v) 0 {} topologies)"

subsection \<open>validateTopologyTypeConstraint\<close>

text \<open>
  \<^verbatim>\<open>inDegree\<close> and \<^verbatim>\<open>outDegree\<close> are \<^verbatim>\<open>map[string]int\<close>, read with default 0:
  total functions again. The first loop sets both to 0 at every cluster ID, the second
  counts along the edges.
\<close>

fun init_degrees :: "string list \<Rightarrow> (string \<Rightarrow> int) \<times> (string \<Rightarrow> int)
    \<Rightarrow> (string \<Rightarrow> int) \<times> (string \<Rightarrow> int)" where
  "init_degrees [] (inDegree, outDegree) = (inDegree, outDegree)"
| "init_degrees (clusterID # rest) (inDegree, outDegree) =
     init_degrees rest (inDegree(clusterID := 0), outDegree(clusterID := 0))"

fun calc_degrees :: "CrossClusterTopology option list \<Rightarrow> (string \<Rightarrow> int) \<times> (string \<Rightarrow> int)
    \<Rightarrow> (string \<Rightarrow> int) \<times> (string \<Rightarrow> int)" where
  "calc_degrees [] (inDegree, outDegree) = (inDegree, outDegree)"
| "calc_degrees (topology # rest) (inDegree, outDegree) =
     (let source = GetSourceClusterId topology;
          target = GetTargetClusterId topology;
          outDegree' = outDegree(source := outDegree source + 1);
          inDegree' = inDegree(target := inDegree target + 1)
      in calc_degrees rest (inDegree', outDegree'))"

text \<open>The search for the center: \<^verbatim>\<open>centerNode\<close> is the empty string until a
  cluster qualifies.\<close>

fun find_center :: "(string \<Rightarrow> int) \<Rightarrow> (string \<Rightarrow> int) \<Rightarrow> int \<Rightarrow> string list \<Rightarrow> string
    \<Rightarrow> error + string" where
  "find_center inDegree outDegree clusterCount [] centerNode = Inr centerNode"
| "find_center inDegree outDegree clusterCount (clusterID # rest) centerNode =
     (if outDegree clusterID = clusterCount - 1 \<and> inDegree clusterID = 0
      then (if centerNode \<noteq> [] then Inl ErrMultipleCenters
            else find_center inDegree outDegree clusterCount rest clusterID)
      else find_center inDegree outDegree clusterCount rest centerNode)"

fun check_leaves :: "(string \<Rightarrow> int) \<Rightarrow> (string \<Rightarrow> int) \<Rightarrow> string \<Rightarrow> string list
    \<Rightarrow> error option" where
  "check_leaves inDegree outDegree centerNode [] = None"
| "check_leaves inDegree outDegree centerNode (clusterID # rest) =
     (if clusterID = centerNode then check_leaves inDegree outDegree centerNode rest
      else if inDegree clusterID \<noteq> 1 \<or> outDegree clusterID \<noteq> 0
      then Some (ErrNotStar clusterID (inDegree clusterID) (outDegree clusterID))
      else check_leaves inDegree outDegree centerNode rest)"

definition validateTopologyTypeConstraint ::
  "ReplicateConfigValidator \<Rightarrow> CrossClusterTopology option list \<Rightarrow> error option" where
  "validateTopologyTypeConstraint v topologies =
     (if length topologies = 0 then None
      else let keys = map fst (clusterMap v);
               (inDegree, outDegree) =
                  calc_degrees topologies (init_degrees keys (\<lambda>_. 0, \<lambda>_. 0));
               clusterCount = int (length (clusterMap v)) in
      case find_center inDegree outDegree clusterCount keys [] of
        Inl e \<Rightarrow> Some e
      | Inr centerNode \<Rightarrow>
          if centerNode = [] then Some ErrNoCenter
          else check_leaves inDegree outDegree centerNode keys)"

subsection \<open>validateConfigComparison\<close>

text \<open>\<^verbatim>\<open>slices.Equal\<close>: the same length and the same element at every index.\<close>

definition slices_Equal :: "string list \<Rightarrow> string list \<Rightarrow> bool" where
  "slices_Equal s1 s2 = (s1 = s2)"

definition validateClusterConsistency ::
  "ReplicateConfigValidator \<Rightarrow> MilvusCluster option \<Rightarrow> MilvusCluster option
    \<Rightarrow> error option \<times> ReplicateConfigValidator" where
  "validateClusterConsistency v current incoming =
     (let currentPchannels = GetPchannels current;
          incomingPchannels = GetPchannels incoming in
      if length incomingPchannels < length currentPchannels
      then (Some (ErrPChannelsDecrease (GetClusterId current)
                    (length currentPchannels) (length incomingPchannels)), v)
      else if \<not> slices_Equal currentPchannels (take (length currentPchannels) incomingPchannels)
      then (Some (ErrPChannelsNotPreserved (GetClusterId current)
                    currentPchannels incomingPchannels), v)
      else let v' = (if length incomingPchannels > length currentPchannels
                     then v\<lparr>isPChannelIncreasing := True\<rparr> else v);
               currentConn = GetConnectionParam current;
               incomingConn = GetConnectionParam incoming in
      if GetUri currentConn \<noteq> GetUri incomingConn
      then (Some (ErrURIChanged (GetClusterId current) (GetUri currentConn) (GetUri incomingConn)), v')
      else if GetToken currentConn \<noteq> GetToken incomingConn
      then (Some (ErrTokenChanged (GetClusterId current)), v')
      else (None, v'))"

text \<open>\<^verbatim>\<open>currentClusterMap\<close>: the current clusters that are not \<^verbatim>\<open>nil\<close>, by their
  ID; a later cluster replaces an earlier one of the same ID.\<close>

fun build_current_map :: "MilvusCluster option list \<Rightarrow> cluster_map \<Rightarrow> cluster_map" where
  "build_current_map [] m = m"
| "build_current_map (cluster # rest) m =
     (if cluster \<noteq> None then build_current_map rest (AList.update (GetClusterId cluster) cluster m)
      else build_current_map rest m)"

fun compare_loop :: "cluster_map \<Rightarrow> MilvusCluster option list \<Rightarrow> ReplicateConfigValidator
    \<Rightarrow> error option \<times> ReplicateConfigValidator" where
  "compare_loop currentClusterMap [] v = (None, v)"
| "compare_loop currentClusterMap (incomingCluster # rest) v =
     (case map_of currentClusterMap (GetClusterId incomingCluster) of
        Some currentCluster \<Rightarrow>
          (case validateClusterConsistency v currentCluster incomingCluster of
             (Some e, v') \<Rightarrow> (Some e, v')
           | (None, v') \<Rightarrow> compare_loop currentClusterMap rest v')
      | None \<Rightarrow> compare_loop currentClusterMap rest v)"

fun missing_cluster :: "cluster_map \<Rightarrow> string list \<Rightarrow> error option" where
  "missing_cluster cm [] = None"
| "missing_cluster cm (clusterID # rest) =
     (if map_of cm clusterID = None then Some (ErrGrowthClusterMissing clusterID)
      else missing_cluster cm rest)"

fun current_edges :: "CrossClusterTopology option list \<Rightarrow> string set \<Rightarrow> string set" where
  "current_edges [] currentEdges = currentEdges"
| "current_edges (topo # rest) currentEdges =
     current_edges rest
       (insert (GetSourceClusterId topo @ ''->'' @ GetTargetClusterId topo) currentEdges)"

fun missing_edge :: "string set \<Rightarrow> CrossClusterTopology option list \<Rightarrow> error option" where
  "missing_edge currentEdges [] = None"
| "missing_edge currentEdges (topo # rest) =
     (let edge = GetSourceClusterId topo @ ''->'' @ GetTargetClusterId topo in
      if edge \<notin> currentEdges then Some (ErrGrowthEdgeMissing edge)
      else missing_edge currentEdges rest)"

definition validatePChannelIncreasingConstraints ::
  "ReplicateConfigValidator \<Rightarrow> cluster_map \<Rightarrow> error option" where
  "validatePChannelIncreasingConstraints v currentClusterMap =
     (if length currentClusterMap \<noteq> length (clusterMap v)
      then Some (ErrGrowthClusterCount (length currentClusterMap) (length (clusterMap v)))
      else case missing_cluster (clusterMap v) (map fst currentClusterMap) of
        Some e \<Rightarrow> Some e
      | None \<Rightarrow>
      let currentTopos = GetCrossClusterTopology (currentConfig v);
          incomingTopos = GetCrossClusterTopology (incomingConfig v) in
      if length currentTopos \<noteq> length incomingTopos
      then Some (ErrGrowthEdgeCount (length currentTopos) (length incomingTopos))
      else missing_edge (current_edges currentTopos {}) incomingTopos)"

definition validateConfigComparison ::
  "ReplicateConfigValidator \<Rightarrow> error option \<times> ReplicateConfigValidator" where
  "validateConfigComparison v =
     (let currentClusters = GetClusters (currentConfig v);
          currentClusterMap = build_current_map currentClusters [] in
      case compare_loop currentClusterMap (GetClusters (incomingConfig v)) v of
        (Some e, v') \<Rightarrow> (Some e, v')
      | (None, v') \<Rightarrow>
          if isPChannelIncreasing v'
          then (validatePChannelIncreasingConstraints v' currentClusterMap, v')
          else (None, v'))"

subsection \<open>Validate\<close>

definition Validate ::
  "(string \<Rightarrow> bool) \<Rightarrow> ReplicateConfigValidator \<Rightarrow> error option \<times> ReplicateConfigValidator" where
  "Validate parse_ok v =
     (if incomingConfig v = None then (Some ErrConfigNil, v)
      else let cls = GetClusters (incomingConfig v) in
      if length cls = 0 then (Some ErrClustersEmpty, v)
      else case validateClusterBasic parse_ok cls v of
        (Some e, v1) \<Rightarrow> (Some e, v1)
      | (None, v1) \<Rightarrow>
      (case validateRelevance v1 of
        Some e \<Rightarrow> (Some e, v1)
      | None \<Rightarrow>
      let topologies = GetCrossClusterTopology (incomingConfig v1) in
      (case validateTopologyEdgeUniqueness v1 topologies of
        Some e \<Rightarrow> (Some e, v1)
      | None \<Rightarrow>
      (case validateTopologyTypeConstraint v1 topologies of
        Some e \<Rightarrow> (Some e, v1)
      | None \<Rightarrow>
      if currentConfig v1 \<noteq> None then validateConfigComparison v1
      else (None, v1)))))"

text \<open>One call on a fresh validator, as the callers make it.\<close>

definition run_Validate ::
  "(string \<Rightarrow> bool) \<Rightarrow> ReplicateConfiguration option \<Rightarrow> ReplicateConfiguration option
    \<Rightarrow> string \<Rightarrow> string list \<Rightarrow> error option \<times> ReplicateConfigValidator" where
  "run_Validate parse_ok incoming current cid pchs =
     Validate parse_ok (NewReplicateConfigValidator incoming current cid pchs)"

section \<open>Vocabulary of the properties\<close>

text \<open>The entry that \<^verbatim>\<open>validateClusterBasic\<close> stores for a cluster, and the validator
  once every incoming cluster is stored.\<close>

definition entry :: "MilvusCluster option \<Rightarrow> string \<times> MilvusCluster option" where
  "entry c = (GetClusterId c, c)"

definition indexed ::
  "ReplicateConfiguration option \<Rightarrow> ReplicateConfigValidator \<Rightarrow> ReplicateConfigValidator" where
  "indexed inc v = v\<lparr>clusterMap := map entry (GetClusters inc)\<rparr>"

text \<open>The same validator with other local pchannels and another current configuration.\<close>

definition with_inputs ::
  "string list \<Rightarrow> ReplicateConfiguration option \<Rightarrow> ReplicateConfigValidator
    \<Rightarrow> ReplicateConfigValidator" where
  "with_inputs a b v = v\<lparr>currentPChannels := a, currentConfig := b\<rparr>"

definition on_state ::
  "(ReplicateConfigValidator \<Rightarrow> ReplicateConfigValidator)
    \<Rightarrow> error option \<times> ReplicateConfigValidator \<Rightarrow> error option \<times> ReplicateConfigValidator" where
  "on_state g r = (fst r, g (snd r))"

text \<open>Edges: the key of an edge, and the number of edges into and out of a cluster ID.\<close>

definition topo_key :: "CrossClusterTopology option \<Rightarrow> string" where
  "topo_key t = edgeKey (GetSourceClusterId t) (GetTargetClusterId t)"

definition edge_pair :: "CrossClusterTopology option \<Rightarrow> string \<times> string" where
  "edge_pair t = (GetSourceClusterId t, GetTargetClusterId t)"

definition in_count :: "CrossClusterTopology option list \<Rightarrow> string \<Rightarrow> nat" where
  "in_count ts c = length (filter (\<lambda>t. GetTargetClusterId t = c) ts)"

definition out_count :: "CrossClusterTopology option list \<Rightarrow> string \<Rightarrow> nat" where
  "out_count ts c = length (filter (\<lambda>t. GetSourceClusterId t = c) ts)"

text \<open>A center: a cluster ID with an edge to each of the other clusters and no edge
  into it.\<close>

definition is_center :: "string list \<Rightarrow> CrossClusterTopology option list \<Rightarrow> string \<Rightarrow> bool" where
  "is_center ids ts c \<longleftrightarrow>
     c \<in> set ids \<and> int (out_count ts c) = int (length ids) - 1 \<and> in_count ts c = 0"

text \<open>The current cluster that the transition check compares an incoming cluster ID
  with: the lookup in \<^verbatim>\<open>currentClusterMap\<close>.\<close>

definition current_index ::
  "ReplicateConfiguration option \<Rightarrow> string \<Rightarrow> MilvusCluster option option" where
  "current_index cur clusterID = map_of (build_current_map (GetClusters cur) []) clusterID"

definition unchanged :: "MilvusCluster option \<Rightarrow> MilvusCluster option \<Rightarrow> bool" where
  "unchanged current incoming \<longleftrightarrow>
     GetPchannels incoming = GetPchannels current
     \<and> GetUri (GetConnectionParam incoming) = GetUri (GetConnectionParam current)
     \<and> GetToken (GetConnectionParam incoming) = GetToken (GetConnectionParam current)"

definition grows :: "MilvusCluster option \<Rightarrow> MilvusCluster option \<Rightarrow> bool" where
  "grows current incoming \<longleftrightarrow> length (GetPchannels current) < length (GetPchannels incoming)"

text \<open>The phase that raises an error, by the method of the source that formats it.\<close>

datatype phase = PreCheck | ClusterBasicPhase | RelevancePhase | EdgeUniquenessPhase
  | StarShapePhase | TransitionPhase

fun phase_of :: "error \<Rightarrow> phase" where
  "phase_of ErrConfigNil = PreCheck"
| "phase_of ErrClustersEmpty = PreCheck"
| "phase_of (ErrClusterNil i) = ClusterBasicPhase"
| "phase_of (ErrEmptyClusterID i) = ClusterBasicPhase"
| "phase_of (ErrClusterIDWhitespace i c) = ClusterBasicPhase"
| "phase_of (ErrNilConnectionParam c) = ClusterBasicPhase"
| "phase_of (ErrEmptyURI c) = ClusterBasicPhase"
| "phase_of (ErrInvalidURI c u) = ClusterBasicPhase"
| "phase_of (ErrDuplicateURI u c c') = ClusterBasicPhase"
| "phase_of (ErrEmptyPChannels c) = ClusterBasicPhase"
| "phase_of (ErrEmptyPChannel c j) = ClusterBasicPhase"
| "phase_of (ErrDuplicatePChannel c p) = ClusterBasicPhase"
| "phase_of (ErrPChannelCount c n m f) = ClusterBasicPhase"
| "phase_of (ErrDuplicateClusterID c) = ClusterBasicPhase"
| "phase_of (ErrNotIncluded c) = RelevancePhase"
| "phase_of (ErrPChannelsMismatch a b) = RelevancePhase"
| "phase_of (ErrTopologyNil i) = EdgeUniquenessPhase"
| "phase_of (ErrUnknownSource i s) = EdgeUniquenessPhase"
| "phase_of (ErrUnknownTarget i t) = EdgeUniquenessPhase"
| "phase_of (ErrDuplicateEdge k) = EdgeUniquenessPhase"
| "phase_of ErrMultipleCenters = StarShapePhase"
| "phase_of ErrNoCenter = StarShapePhase"
| "phase_of (ErrNotStar c x y) = StarShapePhase"
| "phase_of (ErrPChannelsDecrease c n m) = TransitionPhase"
| "phase_of (ErrPChannelsNotPreserved c a b) = TransitionPhase"
| "phase_of (ErrURIChanged c a b) = TransitionPhase"
| "phase_of (ErrTokenChanged c) = TransitionPhase"
| "phase_of (ErrGrowthClusterCount n m) = TransitionPhase"
| "phase_of (ErrGrowthClusterMissing c) = TransitionPhase"
| "phase_of (ErrGrowthEdgeCount n m) = TransitionPhase"
| "phase_of (ErrGrowthEdgeMissing k) = TransitionPhase"

section \<open>Configurations of the test suite\<close>

text \<open>
  The URIs that the repository's tests give to valid clusters; \<^verbatim>\<open>url.ParseRequestURI\<close>
  accepts each of them (scheme \<^verbatim>\<open>localhost\<close>, opaque part the port).
\<close>

definition test_uri_ok :: "string \<Rightarrow> bool" where
  "test_uri_ok u \<longleftrightarrow>
     u = ''localhost:19530'' \<or> u = ''localhost:19531'' \<or> u = ''localhost:19532''"

definition makeCluster :: "string \<Rightarrow> string \<Rightarrow> string \<Rightarrow> string list \<Rightarrow> MilvusCluster option" where
  "makeCluster cid u tok pchs =
     Some \<lparr>cluster_id = cid, connection_param = Some \<lparr>uri = u, token = tok\<rparr>, pchannels = pchs\<rparr>"

definition makeEdge :: "string \<Rightarrow> string \<Rightarrow> CrossClusterTopology option" where
  "makeEdge s t = Some \<lparr>source_cluster_id = s, target_cluster_id = t\<rparr>"

definition makeConfig ::
  "MilvusCluster option list \<Rightarrow> CrossClusterTopology option list
    \<Rightarrow> ReplicateConfiguration option" where
  "makeConfig cls es = Some \<lparr>clusters = cls, cross_cluster_topology = es\<rparr>"

definition two_clusters :: "string list \<Rightarrow> ReplicateConfiguration option" where
  "two_clusters pchs =
     Some \<lparr>clusters = [makeCluster ''c1'' ''localhost:19530'' ''t'' pchs,
                       makeCluster ''c2'' ''localhost:19531'' ''t'' pchs],
           cross_cluster_topology = [makeEdge ''c1'' ''c2'']\<rparr>"

definition three_clusters :: "string list \<Rightarrow> ReplicateConfiguration option" where
  "three_clusters pchs =
     Some \<lparr>clusters = [makeCluster ''c1'' ''localhost:19530'' ''t'' pchs,
                       makeCluster ''c2'' ''localhost:19531'' ''t'' pchs,
                       makeCluster ''c3'' ''localhost:19532'' ''t'' pchs],
           cross_cluster_topology = [makeEdge ''c1'' ''c2'', makeEdge ''c1'' ''c3'']\<rparr>"

text \<open>The second cluster of the current configuration carries another token.\<close>

definition two_clusters_old_token :: "string list \<Rightarrow> ReplicateConfiguration option" where
  "two_clusters_old_token pchs =
     Some \<lparr>clusters = [makeCluster ''c1'' ''localhost:19530'' ''t'' pchs,
                       makeCluster ''c2'' ''localhost:19531'' ''old'' pchs],
           cross_cluster_topology = [makeEdge ''c1'' ''c2'']\<rparr>"

text \<open>The star of three clusters with one more edge between its leaves.\<close>

definition not_a_star :: "string list \<Rightarrow> ReplicateConfiguration option" where
  "not_a_star pchs =
     Some \<lparr>clusters = [makeCluster ''c1'' ''localhost:19530'' ''t'' pchs,
                       makeCluster ''c2'' ''localhost:19531'' ''t'' pchs,
                       makeCluster ''c3'' ''localhost:19532'' ''t'' pchs],
           cross_cluster_topology =
             [makeEdge ''c1'' ''c2'', makeEdge ''c1'' ''c3'', makeEdge ''c2'' ''c3'']\<rparr>"

definition whitespace_id :: "ReplicateConfiguration option" where
  "whitespace_id =
     Some \<lparr>clusters = [makeCluster ''cluster 1'' ''localhost:19530'' ''t'' [''ch-1'']],
           cross_cluster_topology = []\<rparr>"

text \<open>Two clusters named \<^verbatim>\<open>x\<close> and \<^verbatim>\<open>x->x\<close>, with the edge from the first to the
  second, and with the edge from the second to the first.\<close>

definition arrow_forward :: "string list \<Rightarrow> ReplicateConfiguration option" where
  "arrow_forward pchs =
     Some \<lparr>clusters = [makeCluster ''x'' ''localhost:19530'' ''t'' pchs,
                       makeCluster ''x->x'' ''localhost:19531'' ''t'' pchs],
           cross_cluster_topology = [makeEdge ''x'' ''x->x'']\<rparr>"

definition arrow_backward :: "string list \<Rightarrow> ReplicateConfiguration option" where
  "arrow_backward pchs =
     Some \<lparr>clusters = [makeCluster ''x'' ''localhost:19530'' ''t'' pchs,
                       makeCluster ''x->x'' ''localhost:19531'' ''t'' pchs],
           cross_cluster_topology = [makeEdge ''x->x'' ''x'']\<rparr>"

section \<open>Lemmas about the phases\<close>

subsection \<open>equalIgnoreOrder is equality of multisets\<close>

lemma count_up_eq: "count_up counts xs = (\<lambda>x. counts x + int (count (mset xs) x))"
  by (induction xs arbitrary: counts) (auto simp: fun_eq_iff)

lemma count_down_iff:
  "(\<forall>x. 0 \<le> counts x) \<Longrightarrow> count_down counts b \<longleftrightarrow> (\<forall>x. int (count (mset b) x) \<le> counts x)"
proof (induction b arbitrary: counts)
  case Nil
  then show ?case by simp
next
  case (Cons y ys)
  show ?case
  proof (cases "counts y = 0")
    case True
    then show ?thesis by (auto intro!: exI[of _ y])
  next
    case False
    with Cons.prems have pos: "0 < counts y" by (metis order_le_less)
    let ?c = "counts(y := counts y - 1)"
    have nn: "\<forall>x. 0 \<le> ?c x" using Cons.prems pos by auto
    have "count_down counts (y # ys) = count_down ?c ys" using False by simp
    also have "\<dots> = (\<forall>x. int (count (mset ys) x) \<le> ?c x)" by (rule Cons.IH[OF nn])
    also have "\<dots> = (\<forall>x. int (count (mset (y # ys)) x) \<le> counts x)"
      by (rule arg_cong[where f = All]) (auto simp: fun_eq_iff)
    finally show ?thesis .
  qed
qed

lemma equalIgnoreOrder_iff: "equalIgnoreOrder a b \<longleftrightarrow> mset a = mset b"
proof -
  have sub: "count_down (count_up (\<lambda>_. 0) a) b \<longleftrightarrow> mset b \<subseteq># mset a"
    by (subst count_down_iff) (auto simp: count_up_eq subseteq_mset_def)
  show ?thesis
  proof
    assume "equalIgnoreOrder a b"
    then have len: "length a = length b" and s: "mset b \<subseteq># mset a"
      using sub by (auto simp: equalIgnoreOrder_def split: if_splits)
    from len have "size (mset a) = size (mset b)" by simp
    with s show "mset a = mset b"
      by (metis mset_subset_size subset_mset.less_le less_irrefl)
  next
    assume "mset a = mset b"
    then have "length a = length b" "mset b \<subseteq># mset a"
      by (auto dest: mset_eq_length)
    then show "equalIgnoreOrder a b" using sub by (simp add: equalIgnoreOrder_def)
  qed
qed

subsection \<open>The cluster map that validateClusterBasic builds\<close>

lemma update_fresh: "map_of m k = None \<Longrightarrow> AList.update k x m = m @ [(k, x)]"
  by (induction m) (auto split: if_splits)

lemma vcb_loop_state:
  "validateClusterBasic_loop pu i n f us cls v = (r, v') \<Longrightarrow> v' = v\<lparr>clusterMap := clusterMap v'\<rparr>"
proof (induction cls arbitrary: i n f us v)
  case Nil
  then show ?case by simp
next
  case (Cons c cs)
  let ?v = "v\<lparr>clusterMap := AList.update (GetClusterId c) c (clusterMap v)\<rparr>"
  from Cons.prems consider "v' = v" |
    (rec) i' n' f' us' where "validateClusterBasic_loop pu i' n' f' us' cs ?v = (r, v')"
    by (auto simp: Let_def split: if_splits option.splits)
  then show ?case
  proof cases
    case 1
    then show ?thesis by simp
  next
    case rec
    from Cons.IH[OF rec] have "v' = ?v\<lparr>clusterMap := clusterMap v'\<rparr>" .
    then show ?thesis by simp
  qed
qed

lemma vcb_loop_ok:
  "validateClusterBasic_loop pu i n f us cls v = (None, v') \<Longrightarrow>
     v' = v\<lparr>clusterMap := clusterMap v @ map entry cls\<rparr>
     \<and> distinct (map GetClusterId cls)
     \<and> (\<forall>c \<in> set cls. c \<noteq> None \<and> GetClusterId c \<noteq> [] \<and> map_of (clusterMap v) (GetClusterId c) = None)"
proof (induction cls arbitrary: i n f us v)
  case Nil
  then show ?case by simp
next
  case (Cons c cs)
  let ?v = "v\<lparr>clusterMap := AList.update (GetClusterId c) c (clusterMap v)\<rparr>"
  from Cons.prems have c: "c \<noteq> None" "GetClusterId c \<noteq> []" "map_of (clusterMap v) (GetClusterId c) = None"
    by (auto simp: Let_def split: if_splits option.splits)
  from Cons.prems obtain i' n' f' us' where
    rec: "validateClusterBasic_loop pu i' n' f' us' cs ?v = (None, v')"
    by (auto simp: Let_def split: if_splits option.splits)
  have upd: "clusterMap ?v = clusterMap v @ [entry c]"
    using c(3) by (simp add: update_fresh entry_def)
  from Cons.IH[OF rec] have
    1: "v' = ?v\<lparr>clusterMap := clusterMap ?v @ map entry cs\<rparr>" and
    2: "distinct (map GetClusterId cs)" and
    3: "\<forall>x \<in> set cs. x \<noteq> None \<and> GetClusterId x \<noteq> [] \<and> map_of (clusterMap ?v) (GetClusterId x) = None"
    by auto
  have 4: "\<forall>x \<in> set cs. GetClusterId x \<noteq> GetClusterId c \<and> map_of (clusterMap v) (GetClusterId x) = None"
    using 3 by (auto simp: update_conv' split: if_splits)
  show ?case using 1 2 3 4 c upd by auto
qed

subsection \<open>Edges and degrees\<close>

lemma edge_loop_ok:
  "edge_loop cm i es ts = None \<Longrightarrow>
     (\<forall>t \<in> set ts. t \<noteq> None \<and> GetSourceClusterId t \<in> fst ` set cm
          \<and> GetTargetClusterId t \<in> fst ` set cm \<and> topo_key t \<notin> es)
     \<and> distinct (map topo_key ts)"
proof (induction ts arbitrary: i es)
  case Nil
  then show ?case by simp
next
  case (Cons t ts)
  from Cons.prems have t: "t \<noteq> None" "GetSourceClusterId t \<in> fst ` set cm"
      "GetTargetClusterId t \<in> fst ` set cm" "topo_key t \<notin> es"
    and rec: "edge_loop cm (Suc i) (insert (topo_key t) es) ts = None"
    by (auto simp: Let_def topo_key_def map_of_eq_None_iff split: if_splits)
  from Cons.IH[OF rec] t show ?case by auto
qed

lemma init_degrees_zero: "init_degrees ks (\<lambda>_. 0, \<lambda>_. 0) = (\<lambda>_. 0, \<lambda>_. 0)"
proof -
  have "init_degrees ks (d, e) = (\<lambda>x. if x \<in> set ks then 0 else d x, \<lambda>x. if x \<in> set ks then 0 else e x)" for d e
    by (induction ks arbitrary: d e) (auto simp: fun_eq_iff)
  then show ?thesis by (simp add: fun_eq_iff)
qed

lemma calc_degrees_eq:
  "calc_degrees ts (d, e) = (\<lambda>x. d x + int (in_count ts x), \<lambda>x. e x + int (out_count ts x))"
  by (induction ts arbitrary: d e) (auto simp: fun_eq_iff in_count_def out_count_def Let_def)

lemma find_center_Inr:
  "find_center d e n ks cn = Inr c \<Longrightarrow>
     c = cn \<or> (c \<in> set ks \<and> e c = n - 1 \<and> d c = 0)"
  by (induction ks arbitrary: cn) (auto split: if_splits)

lemma find_center_Inl:
  "find_center d e n ks cn = Inl err \<Longrightarrow> distinct ks \<Longrightarrow>
     err = ErrMultipleCenters \<and>
     ((cn \<noteq> [] \<and> (\<exists>k \<in> set ks. e k = n - 1 \<and> d k = 0)) \<or>
      (\<exists>a \<in> set ks. \<exists>b \<in> set ks. a \<noteq> b \<and> e a = n - 1 \<and> d a = 0 \<and> e b = n - 1 \<and> d b = 0))"
proof (induction ks arbitrary: cn)
  case Nil
  then show ?case by simp
next
  case (Cons k ks)
  show ?case
  proof (cases "e k = n - 1 \<and> d k = 0")
    case q: True
    show ?thesis
    proof (cases "cn = []")
      case True
      with q Cons.prems have "find_center d e n ks k = Inl err" by simp
      from Cons.IH[OF this] Cons.prems(2) q show ?thesis by auto
    next
      case False
      with q Cons.prems show ?thesis by auto
    qed
  next
    case False
    with Cons.prems have "find_center d e n ks cn = Inl err" by auto
    from Cons.IH[OF this] Cons.prems(2) show ?thesis by auto
  qed
qed

lemma check_leaves_ok:
  "check_leaves d e c ks = None \<Longrightarrow> \<forall>k \<in> set ks. k \<noteq> c \<longrightarrow> d k = 1 \<and> e k = 0"
  by (induction ks) (auto split: if_splits)

lemma check_leaves_err:
  "check_leaves d e c ks = Some err \<Longrightarrow> \<exists>k x y. err = ErrNotStar k x y"
  by (induction ks) (auto split: if_splits)

lemma validateTopologyTypeConstraint_unfold:
  "validateTopologyTypeConstraint v ts =
     (if ts = [] then None
      else case find_center (\<lambda>x. int (in_count ts x)) (\<lambda>x. int (out_count ts x))
                  (int (length (clusterMap v))) (map fst (clusterMap v)) [] of
        Inl e \<Rightarrow> Some e
      | Inr c \<Rightarrow> if c = [] then Some ErrNoCenter
                 else check_leaves (\<lambda>x. int (in_count ts x)) (\<lambda>x. int (out_count ts x)) c
                        (map fst (clusterMap v)))"
  by (simp add: validateTopologyTypeConstraint_def init_degrees_zero calc_degrees_eq Let_def)

lemma star_shape:
  assumes ok: "validateTopologyTypeConstraint v ts = None"
    and ne: "ts \<noteq> []"
    and noempty: "[] \<notin> set (map fst (clusterMap v))"
  shows "\<exists>c \<in> set (map fst (clusterMap v)).
           int (out_count ts c) = int (length (clusterMap v)) - 1 \<and> in_count ts c = 0 \<and>
           (\<forall>k \<in> set (map fst (clusterMap v)). k \<noteq> c \<longrightarrow> in_count ts k = 1 \<and> out_count ts k = 0)"
proof -
  let ?ks = "map fst (clusterMap v)"
  let ?d = "\<lambda>x. int (in_count ts x)" and ?e = "\<lambda>x. int (out_count ts x)"
  let ?n = "int (length (clusterMap v))"
  from ok ne obtain c where
    fc: "find_center ?d ?e ?n ?ks [] = Inr c" and c: "c \<noteq> []" and
    cl: "check_leaves ?d ?e c ?ks = None"
    by (auto simp: validateTopologyTypeConstraint_unfold split: sum.splits if_splits)
  from find_center_Inr[OF fc] c have "c \<in> set ?ks" "?e c = ?n - 1" "?d c = 0" by auto
  moreover from check_leaves_ok[OF cl] have "\<forall>k \<in> set ?ks. k \<noteq> c \<longrightarrow> in_count ts k = 1 \<and> out_count ts k = 0"
    by auto
  ultimately show ?thesis by auto
qed

lemma out_count_zero: "out_count ts k = 0 \<longleftrightarrow> (\<forall>t \<in> set ts. GetSourceClusterId t \<noteq> k)"
  by (auto simp: out_count_def filter_empty_conv)

lemma in_count_zero: "in_count ts k = 0 \<longleftrightarrow> (\<forall>t \<in> set ts. GetTargetClusterId t \<noteq> k)"
  by (auto simp: in_count_def filter_empty_conv)

lemma out_count_all: "\<forall>t \<in> set ts. GetSourceClusterId t = c \<Longrightarrow> out_count ts c = length ts"
  by (simp add: out_count_def)

lemma edgeKey_inj_target: "edgeKey s t = edgeKey s t' \<longleftrightarrow> t = t'"
  by (simp add: edgeKey_def)

lemma two_centers_impossible:
  assumes dk: "distinct ks"
    and a: "a \<in> set ks" and b: "b \<in> set ks" and ab: "a \<noteq> b"
    and keys: "distinct (map topo_key ts)"
    and tgt: "\<forall>t \<in> set ts. GetTargetClusterId t \<in> set ks"
    and outa: "int (out_count ts a) = int (length ks) - 1"
    and ina: "in_count ts a = 0" and inb: "in_count ts b = 0"
  shows False
proof -
  let ?E = "filter (\<lambda>t. GetSourceClusterId t = a) ts"
  let ?T = "map GetTargetClusterId ?E"
  have "distinct (map topo_key ?E)" using keys by (rule distinct_map_filter)
  then have dT: "distinct ?T"
    by (auto simp: distinct_map inj_on_def topo_key_def edgeKey_inj_target)
  have sub: "set ?T \<subseteq> set ks - {a, b}"
    using tgt ina inb by (auto simp: in_count_zero)
  have "length ?T = card (set ?T)" by (rule distinct_card[OF dT, symmetric])
  also have "\<dots> \<le> card (set ks - {a, b})" using sub by (intro card_mono) auto
  also have "\<dots> = length ks - 2" using dk a b ab by (simp add: distinct_card card_Diff_subset)
  finally have "out_count ts a \<le> length ks - 2" by (simp add: out_count_def)
  moreover have "2 \<le> length ks"
  proof -
    have "card {a, b} \<le> card (set ks)" using a b by (intro card_mono) auto
    then show ?thesis using ab dk by (simp add: distinct_card)
  qed
  ultimately show False using outa by linarith
qed

subsection \<open>Every phase raises errors of its own only\<close>

lemma check_pchannels_phase:
  "check_pchannels c j s ps = Some e \<Longrightarrow> phase_of e = ClusterBasicPhase"
  by (induction ps arbitrary: j s) (auto split: if_splits)

lemma vcb_loop_phase:
  "validateClusterBasic_loop pu i n f us cls v = (Some e, v') \<Longrightarrow> phase_of e = ClusterBasicPhase"
proof (induction cls arbitrary: i n f us v)
  case Nil
  then show ?case by simp
next
  case (Cons c cs)
  let ?v = "v\<lparr>clusterMap := AList.update (GetClusterId c) c (clusterMap v)\<rparr>"
  from Cons.prems consider "phase_of e = ClusterBasicPhase" |
    (rec) i' n' f' us' where "validateClusterBasic_loop pu i' n' f' us' cs ?v = (Some e, v')"
    by (auto simp: Let_def check_pchannels_phase split: if_splits option.splits)
  then show ?case using Cons.IH by cases auto
qed

lemma validateRelevance_phase: "validateRelevance v = Some e \<Longrightarrow> phase_of e = RelevancePhase"
  by (auto simp: validateRelevance_def split: option.splits if_splits)

lemma edge_loop_phase: "edge_loop cm i es ts = Some e \<Longrightarrow> phase_of e = EdgeUniquenessPhase"
  by (induction ts arbitrary: i es) (auto simp: Let_def split: if_splits)

lemma validateTopologyEdgeUniqueness_phase:
  "validateTopologyEdgeUniqueness v ts = Some e \<Longrightarrow> phase_of e = EdgeUniquenessPhase"
  by (auto simp: validateTopologyEdgeUniqueness_def edge_loop_phase split: if_splits)

lemma find_center_phase: "find_center d e n ks cn = Inl err \<Longrightarrow> err = ErrMultipleCenters"
  by (induction ks arbitrary: cn) (auto split: if_splits)

lemma validateTopologyTypeConstraint_phase:
  "validateTopologyTypeConstraint v ts = Some e \<Longrightarrow> phase_of e = StarShapePhase"
proof -
  assume a: "validateTopologyTypeConstraint v ts = Some e"
  let ?d = "\<lambda>x. int (in_count ts x)" and ?e = "\<lambda>x. int (out_count ts x)"
  let ?fc = "find_center ?d ?e (int (length (clusterMap v))) (map fst (clusterMap v)) []"
  from a have ne: "ts \<noteq> []" by (auto simp: validateTopologyTypeConstraint_unfold split: if_splits)
  show ?thesis
  proof (cases ?fc)
    case (Inl err)
    with a ne have "e = err" by (simp add: validateTopologyTypeConstraint_unfold)
    with find_center_phase[OF Inl] show ?thesis by simp
  next
    case (Inr c)
    show ?thesis
    proof (cases "c = []")
      case True
      with a ne Inr have "e = ErrNoCenter" by (simp add: validateTopologyTypeConstraint_unfold)
      then show ?thesis by simp
    next
      case False
      with a ne Inr have "check_leaves ?d ?e c (map fst (clusterMap v)) = Some e"
        by (simp add: validateTopologyTypeConstraint_unfold)
      from check_leaves_err[OF this] show ?thesis by auto
    qed
  qed
qed

lemma slices_Equal_take: "slices_Equal a (take (length a) b) = prefix a b"
proof
  assume "slices_Equal a (take (length a) b)"
  then have "b = a @ drop (length a) b"
    by (metis slices_Equal_def append_take_drop_id)
  then show "prefix a b" by (metis prefixI)
next
  assume "prefix a b"
  then show "slices_Equal a (take (length a) b)"
    by (auto simp: slices_Equal_def prefix_def)
qed

lemma validateClusterConsistency_phase:
  "validateClusterConsistency v a b = (Some e, v') \<Longrightarrow> phase_of e = TransitionPhase"
  by (auto simp: validateClusterConsistency_def Let_def slices_Equal_take split: if_splits)

lemma compare_loop_phase:
  "compare_loop cm cs v = (Some e, v') \<Longrightarrow> phase_of e = TransitionPhase"
proof (induction cs arbitrary: v)
  case Nil
  then show ?case by simp
next
  case (Cons c cs)
  then show ?case
    by (auto split: option.splits prod.splits dest: validateClusterConsistency_phase)
qed

lemma missing_cluster_phase: "missing_cluster cm ks = Some e \<Longrightarrow> phase_of e = TransitionPhase"
  by (induction ks) (auto split: if_splits)

lemma missing_edge_phase: "missing_edge es ts = Some e \<Longrightarrow> phase_of e = TransitionPhase"
  by (induction ts) (auto simp: Let_def split: if_splits)

lemma validatePChannelIncreasingConstraints_phase:
  "validatePChannelIncreasingConstraints v cm = Some e \<Longrightarrow> phase_of e = TransitionPhase"
  by (auto simp: validatePChannelIncreasingConstraints_def Let_def
      split: if_splits option.splits dest: missing_cluster_phase missing_edge_phase)

lemma validateConfigComparison_phase:
  "validateConfigComparison v = (Some e, v') \<Longrightarrow> phase_of e = TransitionPhase"
  by (auto simp: validateConfigComparison_def Let_def
      split: if_splits option.splits prod.splits
      dest: compare_loop_phase validatePChannelIncreasingConstraints_phase)

subsection \<open>A successful call\<close>

lemma fresh_fields [simp]:
  "clusterMap (NewReplicateConfigValidator inc cur l lc) = []"
  "incomingConfig (NewReplicateConfigValidator inc cur l lc) = inc"
  "currentConfig (NewReplicateConfigValidator inc cur l lc) = cur"
  "currentClusterID (NewReplicateConfigValidator inc cur l lc) = l"
  "currentPChannels (NewReplicateConfigValidator inc cur l lc) = lc"
  "isPChannelIncreasing (NewReplicateConfigValidator inc cur l lc) = False"
  by (simp_all add: NewReplicateConfigValidator_def)

lemma indexed_fields [simp]:
  "clusterMap (indexed inc v) = map entry (GetClusters inc)"
  "incomingConfig (indexed inc v) = incomingConfig v"
  "currentConfig (indexed inc v) = currentConfig v"
  "currentClusterID (indexed inc v) = currentClusterID v"
  "currentPChannels (indexed inc v) = currentPChannels v"
  "isPChannelIncreasing (indexed inc v) = isPChannelIncreasing v"
  by (simp_all add: indexed_def)

lemma fst_entry [simp]: "fst (entry c) = GetClusterId c"
  by (simp add: entry_def)

lemma Validate_after_basic:
  assumes "incomingConfig v \<noteq> None" and "GetClusters (incomingConfig v) \<noteq> []"
    and "validateClusterBasic pu (GetClusters (incomingConfig v)) v = (None, v1)"
  shows "Validate pu v =
     (case validateRelevance v1 of Some e \<Rightarrow> (Some e, v1)
      | None \<Rightarrow> (case validateTopologyEdgeUniqueness v1 (GetCrossClusterTopology (incomingConfig v1)) of
           Some e \<Rightarrow> (Some e, v1)
         | None \<Rightarrow> (case validateTopologyTypeConstraint v1 (GetCrossClusterTopology (incomingConfig v1)) of
             Some e \<Rightarrow> (Some e, v1)
           | None \<Rightarrow> if currentConfig v1 \<noteq> None then validateConfigComparison v1 else (None, v1))))"
proof -
  from assms(1) obtain cfg where c: "incomingConfig v = Some cfg" by auto
  show ?thesis unfolding Validate_def Let_def using c assms(2,3) by simp
qed

lemma validateClusterBasic_ok:
  assumes "validateClusterBasic pu cls v = (None, v')" and "clusterMap v = []"
  shows "v' = v\<lparr>clusterMap := map entry cls\<rparr>"
    and "distinct (map GetClusterId cls)"
    and "\<forall>c \<in> set cls. c \<noteq> None \<and> GetClusterId c \<noteq> []"
  using vcb_loop_ok[OF assms(1)[unfolded validateClusterBasic_def]] assms(2) by auto

lemma run_Validate_ok:
  assumes ok: "fst (run_Validate pu inc cur l lc) = None"
  shows "inc \<noteq> None" and "GetClusters inc \<noteq> []"
    and "validateClusterBasic pu (GetClusters inc) (NewReplicateConfigValidator inc cur l lc)
           = (None, indexed inc (NewReplicateConfigValidator inc cur l lc))"
    and "distinct (map GetClusterId (GetClusters inc))"
    and "\<forall>c \<in> set (GetClusters inc). c \<noteq> None \<and> GetClusterId c \<noteq> []"
    and "validateRelevance (indexed inc (NewReplicateConfigValidator inc cur l lc)) = None"
    and "validateTopologyEdgeUniqueness (indexed inc (NewReplicateConfigValidator inc cur l lc))
           (GetCrossClusterTopology inc) = None"
    and "validateTopologyTypeConstraint (indexed inc (NewReplicateConfigValidator inc cur l lc))
           (GetCrossClusterTopology inc) = None"
    and "run_Validate pu inc cur l lc =
           (if cur \<noteq> None then validateConfigComparison (indexed inc (NewReplicateConfigValidator inc cur l lc))
            else (None, indexed inc (NewReplicateConfigValidator inc cur l lc)))"
proof -
  let ?v = "NewReplicateConfigValidator inc cur l lc"
  let ?v1 = "indexed inc ?v"
  from ok show inc: "inc \<noteq> None" and ne: "GetClusters inc \<noteq> []"
    by (auto simp: run_Validate_def Validate_def Let_def split: if_splits)
  obtain r v' where b: "validateClusterBasic pu (GetClusters inc) ?v = (r, v')"
    by (cases "validateClusterBasic pu (GetClusters inc) ?v")
  from ok inc ne b have r: "r = None"
    by (cases r) (auto simp: run_Validate_def Validate_def Let_def)
  from validateClusterBasic_ok[OF b[unfolded r]]
  have v': "v' = ?v1" and d: "distinct (map GetClusterId (GetClusters inc))"
    and nn: "\<forall>c \<in> set (GetClusters inc). c \<noteq> None \<and> GetClusterId c \<noteq> []"
    by (simp_all add: indexed_def)
  from b r v' show b1: "validateClusterBasic pu (GetClusters inc) ?v = (None, ?v1)" by simp
  from d show "distinct (map GetClusterId (GetClusters inc))" .
  from nn show "\<forall>c \<in> set (GetClusters inc). c \<noteq> None \<and> GetClusterId c \<noteq> []" .
  have unf: "run_Validate pu inc cur l lc =
     (case validateRelevance ?v1 of Some e \<Rightarrow> (Some e, ?v1)
      | None \<Rightarrow> (case validateTopologyEdgeUniqueness ?v1 (GetCrossClusterTopology inc) of
           Some e \<Rightarrow> (Some e, ?v1)
         | None \<Rightarrow> (case validateTopologyTypeConstraint ?v1 (GetCrossClusterTopology inc) of
             Some e \<Rightarrow> (Some e, ?v1)
           | None \<Rightarrow> if cur \<noteq> None then validateConfigComparison ?v1 else (None, ?v1))))"
    using Validate_after_basic[of ?v pu ?v1] inc ne b1
    unfolding run_Validate_def indexed_fields fresh_fields by simp
  from ok unf show rel: "validateRelevance ?v1 = None"
    by (cases "validateRelevance ?v1") auto
  from ok unf rel show eu: "validateTopologyEdgeUniqueness ?v1 (GetCrossClusterTopology inc) = None"
    by (cases "validateTopologyEdgeUniqueness ?v1 (GetCrossClusterTopology inc)") auto
  from ok unf rel eu show st: "validateTopologyTypeConstraint ?v1 (GetCrossClusterTopology inc) = None"
    by (cases "validateTopologyTypeConstraint ?v1 (GetCrossClusterTopology inc)") auto
  from unf rel eu st show "run_Validate pu inc cur l lc =
           (if cur \<noteq> None then validateConfigComparison ?v1 else (None, ?v1))"
    by simp
qed

lemma validateTopologyEdgeUniqueness_ok:
  assumes "validateTopologyEdgeUniqueness v ts = None"
  shows "\<forall>t \<in> set ts. t \<noteq> None \<and> GetSourceClusterId t \<in> set (map fst (clusterMap v))
             \<and> GetTargetClusterId t \<in> set (map fst (clusterMap v))"
    and "distinct (map topo_key ts)"
proof -
  have "ts = [] \<or> edge_loop (clusterMap v) 0 {} ts = None"
    using assms by (auto simp: validateTopologyEdgeUniqueness_def split: if_splits)
  then show "\<forall>t \<in> set ts. t \<noteq> None \<and> GetSourceClusterId t \<in> set (map fst (clusterMap v))
             \<and> GetTargetClusterId t \<in> set (map fst (clusterMap v))"
    and "distinct (map topo_key ts)"
    using edge_loop_ok[of "clusterMap v" 0 "{}" ts] by auto
qed

subsection \<open>The structural phases read neither the local pchannels nor the current configuration\<close>

lemma with_inputs_fields [simp]:
  "clusterMap (with_inputs a b v) = clusterMap v"
  "incomingConfig (with_inputs a b v) = incomingConfig v"
  "currentConfig (with_inputs a b v) = b"
  "currentClusterID (with_inputs a b v) = currentClusterID v"
  "currentPChannels (with_inputs a b v) = a"
  "isPChannelIncreasing (with_inputs a b v) = isPChannelIncreasing v"
  by (simp_all add: with_inputs_def)

lemma with_inputs_clusterMap_update:
  "with_inputs a b (v\<lparr>clusterMap := m\<rparr>) = (with_inputs a b v)\<lparr>clusterMap := m\<rparr>"
  by (simp add: with_inputs_def)

lemma on_state_pair [simp]: "on_state g (e, v) = (e, g v)"
  by (simp add: on_state_def)

lemma vcb_loop_with_inputs:
  "validateClusterBasic_loop pu i n f us cls (with_inputs x y v) =
     on_state (with_inputs x y) (validateClusterBasic_loop pu i n f us cls v)"
proof (induction cls arbitrary: i n f us v)
  case Nil
  then show ?case by simp
next
  case (Cons c cs)
  have IH: "validateClusterBasic_loop pu i' n' f' us' cs ((with_inputs x y v)\<lparr>clusterMap := m\<rparr>) =
     on_state (with_inputs x y) (validateClusterBasic_loop pu i' n' f' us' cs (v\<lparr>clusterMap := m\<rparr>))"
    for i' n' f' us' m
    using Cons.IH[of i' n' f' us' "v\<lparr>clusterMap := m\<rparr>"] by (simp add: with_inputs_clusterMap_update)
  show ?case
    by (simp add: Let_def IH split: option.splits del: fun_upd_apply)
qed

lemma validateClusterBasic_with_inputs:
  "validateClusterBasic pu cls (with_inputs a b v) =
     on_state (with_inputs a b) (validateClusterBasic pu cls v)"
  by (simp add: validateClusterBasic_def vcb_loop_with_inputs)

lemma validateTopologyEdgeUniqueness_with_inputs [simp]:
  "validateTopologyEdgeUniqueness (with_inputs a b v) ts = validateTopologyEdgeUniqueness v ts"
  by (simp add: validateTopologyEdgeUniqueness_def)

lemma validateTopologyTypeConstraint_with_inputs [simp]:
  "validateTopologyTypeConstraint (with_inputs a b v) ts = validateTopologyTypeConstraint v ts"
  unfolding validateTopologyTypeConstraint_unfold with_inputs_fields by (rule refl)

lemma validateRelevance_iff:
  "validateRelevance v = None \<longleftrightarrow>
     (\<exists>c. map_of (clusterMap v) (currentClusterID v) = Some c \<and> mset (currentPChannels v) = mset (GetPchannels c))"
  by (auto simp: validateRelevance_def equalIgnoreOrder_iff split: option.splits)

lemma run_Validate_None_current:
  "fst (run_Validate pu inc None l lc) = None \<Longrightarrow>
   run_Validate pu inc cur l lc =
     (if cur \<noteq> None then validateConfigComparison (indexed inc (NewReplicateConfigValidator inc cur l lc))
      else (None, indexed inc (NewReplicateConfigValidator inc cur l lc)))"
proof -
  assume ok: "fst (run_Validate pu inc None l lc) = None"
  let ?w = "NewReplicateConfigValidator inc None l lc"
  let ?v = "NewReplicateConfigValidator inc cur l lc"
  note V = run_Validate_ok[OF ok]
  have v: "?v = with_inputs lc cur ?w"
    by (simp add: NewReplicateConfigValidator_def with_inputs_def)
  have iv: "indexed inc ?v = with_inputs lc cur (indexed inc ?w)"
    by (simp add: NewReplicateConfigValidator_def with_inputs_def indexed_def)
  have "validateClusterBasic pu (GetClusters inc) (with_inputs lc cur ?w)
          = (None, with_inputs lc cur (indexed inc ?w))"
    by (simp add: validateClusterBasic_with_inputs V(3))
  then have b: "validateClusterBasic pu (GetClusters inc) ?v = (None, indexed inc ?v)"
    unfolding v[symmetric] iv[symmetric] .
  have rel: "validateRelevance (indexed inc ?v) = None"
    using V(6) by (simp add: validateRelevance_iff)
  have eu: "validateTopologyEdgeUniqueness (indexed inc ?v) (GetCrossClusterTopology inc) = None"
    using V(7) unfolding iv by simp
  have st: "validateTopologyTypeConstraint (indexed inc ?v) (GetCrossClusterTopology inc) = None"
    using V(8) unfolding iv by simp
  from V(1) have i1: "incomingConfig ?v \<noteq> None" by simp
  from V(2) have i2: "GetClusters (incomingConfig ?v) \<noteq> []" by simp
  from b have i3: "validateClusterBasic pu (GetClusters (incomingConfig ?v)) ?v = (None, indexed inc ?v)" by simp
  show ?thesis
    using Validate_after_basic[OF i1 i2 i3] rel eu st
    unfolding run_Validate_def indexed_fields fresh_fields by simp
qed

subsection \<open>The transition check\<close>

lemma validateClusterConsistency_ok:
  assumes "validateClusterConsistency v cu c = (None, v')"
  shows "prefix (GetPchannels cu) (GetPchannels c)"
    and "GetUri (GetConnectionParam cu) = GetUri (GetConnectionParam c)"
    and "GetToken (GetConnectionParam cu) = GetToken (GetConnectionParam c)"
    and "v' = v\<lparr>isPChannelIncreasing := isPChannelIncreasing v \<or> grows cu c\<rparr>"
  using assms
  by (auto simp: validateClusterConsistency_def Let_def slices_Equal_take grows_def split: if_splits)

lemma validateClusterConsistency_state:
  "validateClusterConsistency v cu c = (r, v') \<Longrightarrow>
     v' = v\<lparr>isPChannelIncreasing := isPChannelIncreasing v'\<rparr>"
  by (auto simp: validateClusterConsistency_def Let_def slices_Equal_take split: if_splits)

lemma validateClusterConsistency_unchanged:
  "unchanged cu c \<Longrightarrow> validateClusterConsistency v cu c = (None, v)"
  by (simp add: validateClusterConsistency_def Let_def slices_Equal_def unchanged_def)

lemma compare_loop_ok:
  "compare_loop cm cs v = (None, v') \<Longrightarrow>
     (\<forall>c \<in> set cs. \<forall>cu. map_of cm (GetClusterId c) = Some cu \<longrightarrow>
         prefix (GetPchannels cu) (GetPchannels c)
         \<and> GetUri (GetConnectionParam cu) = GetUri (GetConnectionParam c)
         \<and> GetToken (GetConnectionParam cu) = GetToken (GetConnectionParam c))
     \<and> v' = v\<lparr>isPChannelIncreasing := isPChannelIncreasing v \<or>
                (\<exists>c \<in> set cs. \<exists>cu. map_of cm (GetClusterId c) = Some cu \<and> grows cu c)\<rparr>"
proof (induction cs arbitrary: v)
  case Nil
  then show ?case by simp
next
  case (Cons c cs)
  show ?case
  proof (cases "map_of cm (GetClusterId c)")
    case None
    with Cons.prems have "compare_loop cm cs v = (None, v')" by simp
    from Cons.IH[OF this] None show ?thesis by simp
  next
    case (Some cu)
    obtain r w where w: "validateClusterConsistency v cu c = (r, w)"
      by (cases "validateClusterConsistency v cu c")
    with Cons.prems Some have r: "r = None" and rec: "compare_loop cm cs w = (None, v')"
      by (cases r; simp)+
    note C = validateClusterConsistency_ok[OF w[unfolded r]]
    from Cons.IH[OF rec] C Some show ?thesis by auto
  qed
qed

lemma compare_loop_state:
  "compare_loop cm cs v = (r, v') \<Longrightarrow> v' = v\<lparr>isPChannelIncreasing := isPChannelIncreasing v'\<rparr>"
proof (induction cs arbitrary: v)
  case Nil
  then show ?case by simp
next
  case (Cons c cs)
  show ?case
  proof (cases "map_of cm (GetClusterId c)")
    case None
    with Cons.prems have "compare_loop cm cs v = (r, v')" by simp
    from Cons.IH[OF this] show ?thesis .
  next
    case (Some cu)
    obtain r1 w where w: "validateClusterConsistency v cu c = (r1, w)"
      by (cases "validateClusterConsistency v cu c")
    note S = validateClusterConsistency_state[OF w]
    show ?thesis
    proof (cases r1)
      case None
      with Cons.prems Some w have "compare_loop cm cs w = (r, v')" by simp
      from Cons.IH[OF this] have "v' = w\<lparr>isPChannelIncreasing := isPChannelIncreasing v'\<rparr>" .
      then have "v' = v\<lparr>isPChannelIncreasing := isPChannelIncreasing w\<rparr>\<lparr>isPChannelIncreasing := isPChannelIncreasing v'\<rparr>"
        using S by simp
      then show ?thesis by simp
    next
      case (Some e)
      with Cons.prems \<open>map_of cm (GetClusterId c) = Some cu\<close> w have "v' = w" by simp
      with S show ?thesis by simp
    qed
  qed
qed

lemma compare_loop_unchanged:
  "\<forall>c \<in> set cs. \<forall>cu. map_of cm (GetClusterId c) = Some cu \<longrightarrow> unchanged cu c \<Longrightarrow>
     compare_loop cm cs v = (None, v)"
  by (induction cs) (auto simp: validateClusterConsistency_unchanged split: option.splits)

lemma validateConfigComparison_unfold:
  "validateConfigComparison v =
     (case compare_loop (build_current_map (GetClusters (currentConfig v)) []) (GetClusters (incomingConfig v)) v of
        (Some e, v') \<Rightarrow> (Some e, v')
      | (None, v') \<Rightarrow>
          if isPChannelIncreasing v'
          then (validatePChannelIncreasingConstraints v' (build_current_map (GetClusters (currentConfig v)) []), v')
          else (None, v'))"
  unfolding validateConfigComparison_def Let_def by (rule refl)

lemma validateConfigComparison_unchanged:
  assumes "\<not> isPChannelIncreasing v"
    and "\<forall>c \<in> set (GetClusters (incomingConfig v)). \<forall>cu.
           current_index (currentConfig v) (GetClusterId c) = Some cu \<longrightarrow> unchanged cu c"
  shows "validateConfigComparison v = (None, v)"
  using assms compare_loop_unchanged[of "GetClusters (incomingConfig v)"
      "build_current_map (GetClusters (currentConfig v)) []" v]
  by (simp add: validateConfigComparison_unfold current_index_def)

lemma validateConfigComparison_ok:
  assumes "validateConfigComparison v = (None, v')"
  shows "\<forall>c \<in> set (GetClusters (incomingConfig v)). \<forall>cu.
           current_index (currentConfig v) (GetClusterId c) = Some cu \<longrightarrow>
             prefix (GetPchannels cu) (GetPchannels c)
             \<and> GetUri (GetConnectionParam cu) = GetUri (GetConnectionParam c)
             \<and> GetToken (GetConnectionParam cu) = GetToken (GetConnectionParam c)"
    and "v' = v\<lparr>isPChannelIncreasing := isPChannelIncreasing v \<or>
            (\<exists>c \<in> set (GetClusters (incomingConfig v)). \<exists>cu.
                current_index (currentConfig v) (GetClusterId c) = Some cu \<and> grows cu c)\<rparr>"
    and "isPChannelIncreasing v' \<longrightarrow>
           validatePChannelIncreasingConstraints v' (build_current_map (GetClusters (currentConfig v)) []) = None"
proof -
  let ?cm = "build_current_map (GetClusters (currentConfig v)) []"
  obtain r w where w: "compare_loop ?cm (GetClusters (incomingConfig v)) v = (r, w)"
    by (cases "compare_loop ?cm (GetClusters (incomingConfig v)) v")
  from assms w have r: "r = None"
    by (cases r) (auto simp: validateConfigComparison_unfold)
  from assms w r have v': "v' = w"
    by (auto simp: validateConfigComparison_unfold split: if_splits)
  note L = compare_loop_ok[OF w[unfolded r]]
  from L show "\<forall>c \<in> set (GetClusters (incomingConfig v)). \<forall>cu.
           current_index (currentConfig v) (GetClusterId c) = Some cu \<longrightarrow>
             prefix (GetPchannels cu) (GetPchannels c)
             \<and> GetUri (GetConnectionParam cu) = GetUri (GetConnectionParam c)
             \<and> GetToken (GetConnectionParam cu) = GetToken (GetConnectionParam c)"
    by (simp add: current_index_def)
  from L v' show "v' = v\<lparr>isPChannelIncreasing := isPChannelIncreasing v \<or>
            (\<exists>c \<in> set (GetClusters (incomingConfig v)). \<exists>cu.
                current_index (currentConfig v) (GetClusterId c) = Some cu \<and> grows cu c)\<rparr>"
    by (simp add: current_index_def)
  from assms w r v' show "isPChannelIncreasing v' \<longrightarrow>
           validatePChannelIncreasingConstraints v' ?cm = None"
    by (auto simp: validateConfigComparison_unfold split: if_splits)
qed

lemma validateConfigComparison_state:
  "validateConfigComparison v = (r, v') \<Longrightarrow> v' = v\<lparr>isPChannelIncreasing := isPChannelIncreasing v'\<rparr>"
proof -
  assume a: "validateConfigComparison v = (r, v')"
  let ?cm = "build_current_map (GetClusters (currentConfig v)) []"
  obtain r1 w where w: "compare_loop ?cm (GetClusters (incomingConfig v)) v = (r1, w)"
    by (cases "compare_loop ?cm (GetClusters (incomingConfig v)) v")
  from a w have "v' = w"
    by (cases r1) (auto simp: validateConfigComparison_unfold split: if_splits)
  with compare_loop_state[OF w] show ?thesis by simp
qed

lemma build_current_map_other:
  "\<forall>y \<in> set cls. y \<noteq> None \<longrightarrow> GetClusterId y \<noteq> k \<Longrightarrow>
     map_of (build_current_map cls m) k = map_of m k"
  by (induction cls arbitrary: m) (auto simp: update_conv')

lemma build_current_map_member:
  "c \<in> set cls \<Longrightarrow> \<forall>y \<in> set cls. y \<noteq> None \<Longrightarrow> distinct (map GetClusterId cls) \<Longrightarrow>
     map_of (build_current_map cls m) (GetClusterId c) = Some c"
proof (induction cls arbitrary: m)
  case Nil
  then show ?case by simp
next
  case (Cons x xs)
  show ?case
  proof (cases "c = x")
    case True
    have "GetClusterId x \<notin> GetClusterId ` set xs"
      using Cons.prems(3) by simp
    then have "\<forall>y \<in> set xs. y \<noteq> None \<longrightarrow> GetClusterId y \<noteq> GetClusterId x"
      by (metis imageI)
    from build_current_map_other[OF this] Cons.prems(2) True show ?thesis
      by (simp add: update_conv')
  next
    case False
    with Cons.prems have "c \<in> set xs" "\<forall>y \<in> set xs. y \<noteq> None" "distinct (map GetClusterId xs)"
      by auto
    from Cons.IH[OF this] Cons.prems(2) show ?thesis by simp
  qed
qed

subsection \<open>The cases of Validate\<close>

lemma validateClusterBasic_state:
  "validateClusterBasic pu cls v = (r, v1) \<Longrightarrow> v1 = v\<lparr>clusterMap := clusterMap v1\<rparr>"
  unfolding validateClusterBasic_def by (rule vcb_loop_state)

lemma validateClusterBasic_phase:
  "validateClusterBasic pu cls v = (Some e, v1) \<Longrightarrow> phase_of e = ClusterBasicPhase"
  unfolding validateClusterBasic_def by (rule vcb_loop_phase)

lemma Validate_basic_error:
  assumes "incomingConfig v \<noteq> None" and "GetClusters (incomingConfig v) \<noteq> []"
    and "validateClusterBasic pu (GetClusters (incomingConfig v)) v = (Some e, v1)"
  shows "Validate pu v = (Some e, v1)"
proof -
  from assms(1) obtain cfg where c: "incomingConfig v = Some cfg" by auto
  show ?thesis unfolding Validate_def Let_def using c assms(2,3) by simp
qed

lemma Validate_cases [consumes 0, case_names nil empty basic relevance edges star transition first_install]:
  obtains
    (nil) "incomingConfig v = None" "Validate pu v = (Some ErrConfigNil, v)"
  | (empty) "incomingConfig v \<noteq> None" "GetClusters (incomingConfig v) = []"
      "Validate pu v = (Some ErrClustersEmpty, v)"
  | (basic) e v1 where "incomingConfig v \<noteq> None" "GetClusters (incomingConfig v) \<noteq> []"
      "validateClusterBasic pu (GetClusters (incomingConfig v)) v = (Some e, v1)"
      "Validate pu v = (Some e, v1)"
  | (relevance) e v1 where "incomingConfig v \<noteq> None" "GetClusters (incomingConfig v) \<noteq> []"
      "validateClusterBasic pu (GetClusters (incomingConfig v)) v = (None, v1)"
      "validateRelevance v1 = Some e"
      "Validate pu v = (Some e, v1)"
  | (edges) e v1 where "incomingConfig v \<noteq> None" "GetClusters (incomingConfig v) \<noteq> []"
      "validateClusterBasic pu (GetClusters (incomingConfig v)) v = (None, v1)"
      "validateRelevance v1 = None"
      "validateTopologyEdgeUniqueness v1 (GetCrossClusterTopology (incomingConfig v)) = Some e"
      "Validate pu v = (Some e, v1)"
  | (star) e v1 where "incomingConfig v \<noteq> None" "GetClusters (incomingConfig v) \<noteq> []"
      "validateClusterBasic pu (GetClusters (incomingConfig v)) v = (None, v1)"
      "validateRelevance v1 = None"
      "validateTopologyEdgeUniqueness v1 (GetCrossClusterTopology (incomingConfig v)) = None"
      "validateTopologyTypeConstraint v1 (GetCrossClusterTopology (incomingConfig v)) = Some e"
      "Validate pu v = (Some e, v1)"
  | (transition) v1 where "incomingConfig v \<noteq> None" "GetClusters (incomingConfig v) \<noteq> []"
      "validateClusterBasic pu (GetClusters (incomingConfig v)) v = (None, v1)"
      "validateRelevance v1 = None"
      "validateTopologyEdgeUniqueness v1 (GetCrossClusterTopology (incomingConfig v)) = None"
      "validateTopologyTypeConstraint v1 (GetCrossClusterTopology (incomingConfig v)) = None"
      "currentConfig v \<noteq> None"
      "Validate pu v = validateConfigComparison v1"
  | (first_install) v1 where "incomingConfig v \<noteq> None" "GetClusters (incomingConfig v) \<noteq> []"
      "validateClusterBasic pu (GetClusters (incomingConfig v)) v = (None, v1)"
      "validateRelevance v1 = None"
      "validateTopologyEdgeUniqueness v1 (GetCrossClusterTopology (incomingConfig v)) = None"
      "validateTopologyTypeConstraint v1 (GetCrossClusterTopology (incomingConfig v)) = None"
      "currentConfig v = None"
      "Validate pu v = (None, v1)"
proof (cases "incomingConfig v = None")
  case True
  then have "Validate pu v = (Some ErrConfigNil, v)" by (simp add: Validate_def)
  with True show ?thesis by (rule nil)
next
  case inc: False
  show ?thesis
  proof (cases "GetClusters (incomingConfig v) = []")
    case True
    with inc have "Validate pu v = (Some ErrClustersEmpty, v)" by (simp add: Validate_def)
    with inc True show ?thesis by (rule empty)
  next
    case ne: False
    obtain r v1 where b: "validateClusterBasic pu (GetClusters (incomingConfig v)) v = (r, v1)"
      by (cases "validateClusterBasic pu (GetClusters (incomingConfig v)) v")
    note st = validateClusterBasic_state[OF b]
    have i1: "incomingConfig v1 = incomingConfig v" and c1: "currentConfig v1 = currentConfig v"
      by (subst st, simp)+
    show ?thesis
    proof (cases r)
      case (Some e)
      from Validate_basic_error[OF inc ne b[unfolded Some]] inc ne b Some
      show ?thesis by (intro basic) auto
    next
      case None
      note A = Validate_after_basic[OF inc ne b[unfolded None], unfolded i1 c1]
      show ?thesis
      proof (cases "validateRelevance v1")
        case (Some e)
        with A have "Validate pu v = (Some e, v1)" by simp
        with inc ne b None Some show ?thesis by (intro relevance) auto
      next
        case rel: None
        show ?thesis
        proof (cases "validateTopologyEdgeUniqueness v1 (GetCrossClusterTopology (incomingConfig v))")
          case (Some e)
          with A rel have "Validate pu v = (Some e, v1)" by simp
          with inc ne b None rel Some show ?thesis by (intro edges) auto
        next
          case eu: None
          show ?thesis
          proof (cases "validateTopologyTypeConstraint v1 (GetCrossClusterTopology (incomingConfig v))")
            case (Some e)
            with A rel eu have "Validate pu v = (Some e, v1)" by simp
            with inc ne b None rel eu Some show ?thesis by (intro star) auto
          next
            case st: None
            show ?thesis
            proof (cases "currentConfig v = None")
              case True
              with A rel eu st have "Validate pu v = (None, v1)" by simp
              with inc ne b None rel eu st True show ?thesis by (intro first_install) auto
            next
              case False
              with A rel eu st have "Validate pu v = validateConfigComparison v1" by simp
              with inc ne b None rel eu st False show ?thesis by (intro transition) auto
            qed
          qed
        qed
      qed
    qed
  qed
qed

subsection \<open>At most one center\<close>

lemma no_two_centers:
  assumes dk: "distinct (map fst (clusterMap v))"
    and eu: "validateTopologyEdgeUniqueness v ts = None"
    and a: "is_center (map fst (clusterMap v)) ts a"
    and b: "is_center (map fst (clusterMap v)) ts b"
  shows "a = b"
proof (rule ccontr)
  assume ab: "a \<noteq> b"
  note E = validateTopologyEdgeUniqueness_ok[OF eu]
  from E(1) have tgt: "\<forall>t \<in> set ts. GetTargetClusterId t \<in> set (map fst (clusterMap v))" by blast
  from a b have "a \<in> set (map fst (clusterMap v))" "b \<in> set (map fst (clusterMap v))"
    "int (out_count ts a) = int (length (map fst (clusterMap v))) - 1"
    "in_count ts a = 0" "in_count ts b = 0"
    by (simp_all add: is_center_def)
  from two_centers_impossible[OF dk this(1,2) ab E(2) tgt this(3,4,5)] show False .
qed

lemma star_check_not_multiple:
  assumes dk: "distinct (map fst (clusterMap v))"
    and eu: "validateTopologyEdgeUniqueness v ts = None"
  shows "validateTopologyTypeConstraint v ts \<noteq> Some ErrMultipleCenters"
proof
  assume m: "validateTopologyTypeConstraint v ts = Some ErrMultipleCenters"
  let ?d = "\<lambda>x. int (in_count ts x)" and ?e = "\<lambda>x. int (out_count ts x)"
  let ?ks = "map fst (clusterMap v)"
  let ?fc = "find_center ?d ?e (int (length (clusterMap v))) ?ks []"
  from m have ne: "ts \<noteq> []" by (auto simp: validateTopologyTypeConstraint_unfold split: if_splits)
  have "\<exists>err. ?fc = Inl err"
  proof (cases ?fc)
    case (Inl err)
    then show ?thesis by blast
  next
    case (Inr c)
    show ?thesis
    proof (cases "c = []")
      case True
      with m ne Inr show ?thesis by (simp add: validateTopologyTypeConstraint_unfold)
    next
      case False
      with m ne Inr have "check_leaves ?d ?e c ?ks = Some ErrMultipleCenters"
        by (simp add: validateTopologyTypeConstraint_unfold)
      from check_leaves_err[OF this] show ?thesis by simp
    qed
  qed
  then obtain err where "?fc = Inl err" ..
  from find_center_Inl[OF this dk] obtain a b where
    "a \<in> set ?ks" "b \<in> set ?ks" "a \<noteq> b"
    "?e a = int (length (clusterMap v)) - 1" "?d a = 0"
    "?e b = int (length (clusterMap v)) - 1" "?d b = 0"
    by auto
  then have "is_center ?ks ts a" "is_center ?ks ts b" "a \<noteq> b"
    by (simp_all add: is_center_def)
  with no_two_centers[OF dk eu] show False by blast
qed

lemma Validate_never_multiple_centers:
  "fst (run_Validate pu inc cur l lc) \<noteq> Some ErrMultipleCenters"
proof -
  let ?v = "NewReplicateConfigValidator inc cur l lc"
  show ?thesis unfolding run_Validate_def
  proof (cases rule: Validate_cases[of ?v pu])
    case nil
    then show "fst (Validate pu ?v) \<noteq> Some ErrMultipleCenters" by simp
  next
    case empty
    then show "fst (Validate pu ?v) \<noteq> Some ErrMultipleCenters" by simp
  next
    case (basic e v1)
    from validateClusterBasic_phase[OF basic(3)] basic(4)
    show "fst (Validate pu ?v) \<noteq> Some ErrMultipleCenters" by auto
  next
    case (relevance e v1)
    from validateRelevance_phase[OF relevance(4)] relevance(5)
    show "fst (Validate pu ?v) \<noteq> Some ErrMultipleCenters" by auto
  next
    case (edges e v1)
    from validateTopologyEdgeUniqueness_phase[OF edges(5)] edges(6)
    show "fst (Validate pu ?v) \<noteq> Some ErrMultipleCenters" by auto
  next
    case (star e v1)
    from validateClusterBasic_ok[OF star(3)] have "distinct (map fst (clusterMap v1))"
      by (simp add: comp_def)
    from star_check_not_multiple[OF this star(5)] star(6,7)
    show "fst (Validate pu ?v) \<noteq> Some ErrMultipleCenters" by auto
  next
    case (transition v1)
    obtain r v2 where c: "validateConfigComparison v1 = (r, v2)"
      by (cases "validateConfigComparison v1")
    show "fst (Validate pu ?v) \<noteq> Some ErrMultipleCenters"
    proof (cases r)
      case None
      with c transition(8) show ?thesis by simp
    next
      case (Some e)
      from validateConfigComparison_phase[OF c[unfolded Some]] c Some transition(8)
      show ?thesis by auto
    qed
  next
    case (first_install v1)
    then show "fst (Validate pu ?v) \<noteq> Some ErrMultipleCenters" by simp
  qed
qed

subsection \<open>The test configurations, evaluated\<close>

lemmas validator_defs =
  run_Validate_def Validate_def NewReplicateConfigValidator_def IsPChannelIncreasing_def
  validateClusterBasic_def ContainsAny_def whitespace_def validateRelevance_def
  equalIgnoreOrder_def validateTopologyEdgeUniqueness_def edgeKey_def
  validateTopologyTypeConstraint_def validateConfigComparison_def validateClusterConsistency_def
  validatePChannelIncreasingConstraints_def slices_Equal_def Let_def

lemmas sample_defs =
  test_uri_ok_def makeCluster_def makeEdge_def two_clusters_def three_clusters_def
  two_clusters_old_token_def not_a_star_def arrow_forward_def arrow_backward_def

lemma three_clusters_accepted:
  "run_Validate test_uri_ok (three_clusters [''ch-1'']) None ''c1'' [''ch-1'']
     = (None, indexed (three_clusters [''ch-1''])
          (NewReplicateConfigValidator (three_clusters [''ch-1'']) None ''c1'' [''ch-1'']))"
  by (simp add: validator_defs sample_defs indexed_def entry_def)

lemma two_clusters_accepted:
  "fst (run_Validate test_uri_ok (two_clusters [''ch-1'', ''ch-2'']) None ''c1'' [''ch-1'', ''ch-2''])
     = None"
  by (simp add: validator_defs sample_defs)

lemma two_clusters_growth:
  "fst (run_Validate test_uri_ok (two_clusters [''ch-1'', ''ch-2'']) (two_clusters [''ch-1''])
          ''c1'' [''ch-1'', ''ch-2'']) = None
   \<and> IsPChannelIncreasing (snd (run_Validate test_uri_ok (two_clusters [''ch-1'', ''ch-2''])
          (two_clusters [''ch-1'']) ''c1'' [''ch-1'', ''ch-2'']))"
  by (simp add: validator_defs sample_defs)


lemma arrow_accepted:
  "run_Validate test_uri_ok (arrow_forward [''ch-1'', ''ch-2'']) (arrow_backward [''ch-1''])
      ''x'' [''ch-1'', ''ch-2'']
   = (None,
      (indexed (arrow_forward [''ch-1'', ''ch-2''])
         (NewReplicateConfigValidator (arrow_forward [''ch-1'', ''ch-2''])
            (arrow_backward [''ch-1'']) ''x'' [''ch-1'', ''ch-2'']))
        \<lparr>isPChannelIncreasing := True\<rparr>)"
  by (simp add: validator_defs sample_defs indexed_def entry_def)

lemma arrow_backward_accepted:
  "fst (run_Validate test_uri_ok (arrow_backward [''ch-1'']) None ''x'' [''ch-1'']) = None"
  by (simp add: validator_defs sample_defs)

subsection \<open>The flag after a failure\<close>




subsection \<open>The transition check does not read the local pchannels\<close>

lemma with_inputs_flag_update:
  "with_inputs a b (v\<lparr>isPChannelIncreasing := x\<rparr>) = (with_inputs a b v)\<lparr>isPChannelIncreasing := x\<rparr>"
  by (simp add: with_inputs_def)

lemma validateClusterConsistency_with_inputs:
  "validateClusterConsistency (with_inputs a b v) cu c =
     on_state (with_inputs a b) (validateClusterConsistency v cu c)"
  by (simp add: validateClusterConsistency_def Let_def with_inputs_flag_update)

lemma compare_loop_with_inputs:
  "compare_loop cm cs (with_inputs a b v) = on_state (with_inputs a b) (compare_loop cm cs v)"
proof (induction cs arbitrary: v)
  case Nil
  then show ?case by simp
next
  case (Cons c cs)
  show ?case
  proof (cases "map_of cm (GetClusterId c)")
    case None
    then show ?thesis by (simp add: Cons.IH)
  next
    case (Some cu)
    obtain r1 w where w: "validateClusterConsistency v cu c = (r1, w)"
      by (cases "validateClusterConsistency v cu c")
    then have "validateClusterConsistency (with_inputs a b v) cu c = (r1, with_inputs a b w)"
      by (simp add: validateClusterConsistency_with_inputs)
    with w Some show ?thesis by (cases r1) (simp_all add: Cons.IH)
  qed
qed

lemma validatePChannelIncreasingConstraints_with_inputs:
  "validatePChannelIncreasingConstraints (with_inputs a (currentConfig v) v) cm =
     validatePChannelIncreasingConstraints v cm"
  unfolding validatePChannelIncreasingConstraints_def Let_def with_inputs_fields by (rule refl)

lemma validateConfigComparison_with_inputs:
  "validateConfigComparison (with_inputs a (currentConfig v) v) =
     on_state (with_inputs a (currentConfig v)) (validateConfigComparison v)"
proof -
  let ?b = "currentConfig v"
  let ?cm = "build_current_map (GetClusters ?b) []"
  obtain r1 w where w: "compare_loop ?cm (GetClusters (incomingConfig v)) v = (r1, w)"
    by (cases "compare_loop ?cm (GetClusters (incomingConfig v)) v")
  then have w': "compare_loop ?cm (GetClusters (incomingConfig v)) (with_inputs a ?b v)
      = (r1, with_inputs a ?b w)"
    by (simp add: compare_loop_with_inputs)
  have cw: "currentConfig w = ?b"
    by (subst compare_loop_state[OF w]) simp
  have p: "validatePChannelIncreasingConstraints (with_inputs a ?b w) ?cm =
     validatePChannelIncreasingConstraints w ?cm"
    using validatePChannelIncreasingConstraints_with_inputs[of a w ?cm] by (simp add: cw)
  show ?thesis
    using w w' p by (cases r1) (simp_all add: validateConfigComparison_unfold)
qed

lemma run_Validate_permute:
  assumes m: "mset lc = mset lc'"
    and ok: "fst (run_Validate pu inc cur l lc) = None"
  shows "fst (run_Validate pu inc cur l lc') = None"
proof -
  let ?v = "NewReplicateConfigValidator inc cur l lc"
  let ?w = "NewReplicateConfigValidator inc cur l lc'"
  note V = run_Validate_ok[OF ok]
  have w: "?w = with_inputs lc' cur ?v"
    by (simp add: NewReplicateConfigValidator_def with_inputs_def)
  have iw: "indexed inc ?w = with_inputs lc' cur (indexed inc ?v)"
    by (simp add: NewReplicateConfigValidator_def with_inputs_def indexed_def)
  have "validateClusterBasic pu (GetClusters inc) (with_inputs lc' cur ?v)
          = (None, with_inputs lc' cur (indexed inc ?v))"
    by (simp add: validateClusterBasic_with_inputs V(3))
  then have b: "validateClusterBasic pu (GetClusters inc) ?w = (None, indexed inc ?w)"
    unfolding w[symmetric] iw[symmetric] .
  have rel: "validateRelevance (indexed inc ?w) = None"
    using V(6) m by (simp add: validateRelevance_iff)
  have eu: "validateTopologyEdgeUniqueness (indexed inc ?w) (GetCrossClusterTopology inc) = None"
    using V(7) unfolding iw by simp
  have st: "validateTopologyTypeConstraint (indexed inc ?w) (GetCrossClusterTopology inc) = None"
    using V(8) unfolding iw by simp
  from V(1) have i1: "incomingConfig ?w \<noteq> None" by simp
  from V(2) have i2: "GetClusters (incomingConfig ?w) \<noteq> []" by simp
  from b have i3: "validateClusterBasic pu (GetClusters (incomingConfig ?w)) ?w = (None, indexed inc ?w)"
    by simp
  have run': "run_Validate pu inc cur l lc' =
      (if cur \<noteq> None then validateConfigComparison (indexed inc ?w) else (None, indexed inc ?w))"
    using Validate_after_basic[OF i1 i2 i3] rel eu st
    unfolding run_Validate_def indexed_fields fresh_fields by simp
  show ?thesis
  proof (cases "cur = None")
    case True
    with run' show ?thesis by simp
  next
    case False
    with V(9) ok have c: "fst (validateConfigComparison (indexed inc ?v)) = None" by simp
    have "validateConfigComparison (indexed inc ?w)
        = on_state (with_inputs lc' cur) (validateConfigComparison (indexed inc ?v))"
      unfolding iw
      using validateConfigComparison_with_inputs[of lc' "indexed inc ?v"] by simp
    with c False run' show ?thesis by (simp add: on_state_def)
  qed
qed

subsection \<open>What the growth-mode check does enforce\<close>

lemma build_current_map_keys:
  "fst ` set (build_current_map cls m) = fst ` set m \<union> GetClusterId ` {c \<in> set cls. c \<noteq> None}"
  by (induction cls arbitrary: m) (auto simp: dom_update)

lemma build_current_map_distinct:
  "distinct (map fst m) \<Longrightarrow> distinct (map fst (build_current_map cls m))"
  by (induction cls arbitrary: m) (auto simp: distinct_update)

lemma missing_cluster_ok:
  "missing_cluster cm ks = None \<longleftrightarrow> set ks \<subseteq> fst ` set cm"
  by (induction ks) (auto simp: map_of_eq_None_iff)

lemma current_edges_eq:
  "current_edges ts s = s \<union> set (map topo_key ts)"
  by (induction ts arbitrary: s) (auto simp: topo_key_def edgeKey_def)

lemma missing_edge_ok:
  "missing_edge s ts = None \<longleftrightarrow> set (map topo_key ts) \<subseteq> s"
  by (induction ts) (auto simp: topo_key_def edgeKey_def Let_def)

lemma validatePChannelIncreasingConstraints_ok:
  "validatePChannelIncreasingConstraints v cm = None \<longleftrightarrow>
     length cm = length (clusterMap v)
     \<and> fst ` set cm \<subseteq> fst ` set (clusterMap v)
     \<and> length (GetCrossClusterTopology (currentConfig v))
         = length (GetCrossClusterTopology (incomingConfig v))
     \<and> set (map topo_key (GetCrossClusterTopology (incomingConfig v)))
         \<subseteq> set (map topo_key (GetCrossClusterTopology (currentConfig v)))"
proof -
  have m: "missing_cluster (clusterMap v) (map fst cm) = None \<longleftrightarrow>
      fst ` set cm \<subseteq> fst ` set (clusterMap v)"
    by (simp add: missing_cluster_ok)
  show ?thesis
  proof (cases "missing_cluster (clusterMap v) (map fst cm)")
    case None
    with m show ?thesis
      by (auto simp: validatePChannelIncreasingConstraints_def Let_def missing_edge_ok
          current_edges_eq)
  next
    case (Some e)
    with m show ?thesis
      by (auto simp: validatePChannelIncreasingConstraints_def Let_def)
  qed
qed

lemma distinct_subset_same_length:
  assumes "distinct xs" and "set xs \<subseteq> set ys" and "length ys = length xs"
  shows "set xs = set ys"
proof -
  have "card (set ys) \<le> length ys" by (rule card_length)
  also have "\<dots> = card (set xs)" using assms(1,3) by (simp add: distinct_card)
  finally show ?thesis using assms(2) by (simp add: card_seteq)
qed

lemma growth_mode_keeps_ids_and_edge_keys:
  assumes ok: "fst (run_Validate pu inc cur l lc) = None"
    and g: "IsPChannelIncreasing (snd (run_Validate pu inc cur l lc))"
  shows "set (map GetClusterId (GetClusters inc))
           = GetClusterId ` {c \<in> set (GetClusters cur). c \<noteq> None}"
    and "set (map topo_key (GetCrossClusterTopology inc))
           = set (map topo_key (GetCrossClusterTopology cur))"
proof -
  let ?v1 = "indexed inc (NewReplicateConfigValidator inc cur l lc)"
  let ?cm = "build_current_map (GetClusters cur) []"
  note V = run_Validate_ok[OF ok]
  have cur: "cur \<noteq> None"
  proof
    assume "cur = None"
    with V(9) g show False by (simp add: IsPChannelIncreasing_def)
  qed
  with V(9) have run: "run_Validate pu inc cur l lc = validateConfigComparison ?v1" by simp
  obtain v' where c: "validateConfigComparison ?v1 = (None, v')"
    using ok run by (cases "validateConfigComparison ?v1") auto
  note T = validateConfigComparison_ok[OF c]
  from g run c have f: "isPChannelIncreasing v'" by (simp add: IsPChannelIncreasing_def)
  have fields: "clusterMap v' = map entry (GetClusters inc)" "incomingConfig v' = inc"
    "currentConfig v' = cur"
    by (subst T(2), simp)+
  from T(3) f have "validatePChannelIncreasingConstraints v' ?cm = None" by simp
  then have len: "length ?cm = length (GetClusters inc)"
    and sub: "fst ` set ?cm \<subseteq> GetClusterId ` set (GetClusters inc)"
    and tlen: "length (GetCrossClusterTopology cur) = length (GetCrossClusterTopology inc)"
    and tsub: "set (map topo_key (GetCrossClusterTopology inc))
         \<subseteq> set (map topo_key (GetCrossClusterTopology cur))"
    by (simp_all add: validatePChannelIncreasingConstraints_ok fields image_image)
  have "distinct (map fst ?cm)" by (rule build_current_map_distinct) simp
  from distinct_subset_same_length[OF this, of "map GetClusterId (GetClusters inc)"] sub len
  have "set (map fst ?cm) = set (map GetClusterId (GetClusters inc))" by simp
  then show "set (map GetClusterId (GetClusters inc))
           = GetClusterId ` {c \<in> set (GetClusters cur). c \<noteq> None}"
    by (simp add: build_current_map_keys)
  from validateTopologyEdgeUniqueness_ok(2)[OF V(7)]
  have "distinct (map topo_key (GetCrossClusterTopology inc))" .
  from distinct_subset_same_length[OF this tsub] tlen
  show "set (map topo_key (GetCrossClusterTopology inc))
           = set (map topo_key (GetCrossClusterTopology cur))"
    by simp
qed

subsection \<open>The order in which a map is visited\<close>

lemma find_center_filter:
  assumes "[] \<notin> set ks"
  shows "find_center d e n ks cn =
     (let qs = filter (\<lambda>k. e k = n - 1 \<and> d k = 0) ks in
      if cn \<noteq> [] then (if qs = [] then Inr cn else Inl ErrMultipleCenters)
      else (case qs of [] \<Rightarrow> Inr [] | [c] \<Rightarrow> Inr c | _ \<Rightarrow> Inl ErrMultipleCenters))"
  using assms
proof (induction ks arbitrary: cn)
  case Nil
  then show ?case by simp
next
  case (Cons k ks)
  then have k: "k \<noteq> []" and ks: "[] \<notin> set ks" by auto
  show ?case
    using k by (simp add: Cons.IH[OF ks] Let_def split: list.splits)
qed

lemma check_leaves_None:
  "check_leaves d e c ks = None \<longleftrightarrow> (\<forall>k \<in> set ks. k \<noteq> c \<longrightarrow> d k = 1 \<and> e k = 0)"
  by (induction ks) auto

lemma star_verdict_order_independent:
  assumes p: "mset (map fst (clusterMap v)) = mset (map fst (clusterMap v'))"
    and ne: "[] \<notin> set (map fst (clusterMap v))"
  shows "(validateTopologyTypeConstraint v ts = None) = (validateTopologyTypeConstraint v' ts = None)"
proof -
  let ?d = "\<lambda>x. int (in_count ts x)" and ?e = "\<lambda>x. int (out_count ts x)"
  let ?ks = "map fst (clusterMap v)" and ?ks' = "map fst (clusterMap v')"
  let ?n = "int (length (clusterMap v))"
  let ?Q = "\<lambda>k. ?e k = ?n - 1 \<and> ?d k = 0"
  from p have set_eq: "set ?ks = set ?ks'" by (rule mset_eq_setD)
  from p have "length ?ks = length ?ks'" by (rule mset_eq_length)
  then have len: "length (clusterMap v') = length (clusterMap v)" by simp
  from ne set_eq have ne': "[] \<notin> set ?ks'" by simp
  from p have q: "mset (filter ?Q ?ks) = mset (filter ?Q ?ks')" by (metis mset_filter)
  have ok_iff: "(validateTopologyTypeConstraint w ts = None) =
      (ts = [] \<or> (\<exists>c. filter ?Q (map fst (clusterMap w)) = [c]
          \<and> (\<forall>k \<in> set (map fst (clusterMap w)). k \<noteq> c \<longrightarrow> ?d k = 1 \<and> ?e k = 0)))"
    if w: "[] \<notin> set (map fst (clusterMap w))" "length (clusterMap w) = length (clusterMap v)" for w
  proof (cases "ts = []")
    case True
    then show ?thesis by (simp add: validateTopologyTypeConstraint_unfold)
  next
    case False
    have mem: "c \<noteq> []" if "filter ?Q (map fst (clusterMap w)) = [c]" for c
    proof -
      from that have "c \<in> set (filter ?Q (map fst (clusterMap w)))" by simp
      then have "c \<in> set (map fst (clusterMap w))" by (metis filter_is_subset subsetD)
      with w(1) show ?thesis by metis
    qed
    show ?thesis
    proof (cases "filter ?Q (map fst (clusterMap w))")
      case Nil
      with False w show ?thesis
        by (simp add: validateTopologyTypeConstraint_unfold find_center_filter[OF w(1)])
    next
      case (Cons c cs)
      show ?thesis
      proof (cases cs)
        case Nil
        with Cons have one: "filter ?Q (map fst (clusterMap w)) = [c]" by simp
        with False w mem[OF one] show ?thesis
          by (simp add: validateTopologyTypeConstraint_unfold find_center_filter[OF w(1)]
              check_leaves_None)
      next
        case (Cons c' cs')
        with \<open>filter ?Q (map fst (clusterMap w)) = c # cs\<close> False w show ?thesis
          by (simp add: validateTopologyTypeConstraint_unfold find_center_filter[OF w(1)])
      qed
    qed
  qed
  have single: "(\<exists>c. xs = [c] \<and> P c) = (\<exists>c. ys = [c] \<and> P c)"
    if "mset xs = mset ys" for xs ys :: "string list" and P
  proof -
    have "xs = [c] \<longleftrightarrow> ys = [c]" for c
      using that by (metis mset_single_iff mset.simps(1) mset.simps(2) mset_single_iff_right)
    then show ?thesis by simp
  qed
  have "(validateTopologyTypeConstraint v ts = None) =
      (ts = [] \<or> (\<exists>c. filter ?Q ?ks = [c] \<and> (\<forall>k \<in> set ?ks. k \<noteq> c \<longrightarrow> ?d k = 1 \<and> ?e k = 0)))"
    by (rule ok_iff) (use ne in simp_all)
  also have "\<dots> = (ts = [] \<or> (\<exists>c. filter ?Q ?ks' = [c] \<and> (\<forall>k \<in> set ?ks'. k \<noteq> c \<longrightarrow> ?d k = 1 \<and> ?e k = 0)))"
    using single[OF q] set_eq by simp
  also have "\<dots> = (validateTopologyTypeConstraint v' ts = None)"
    by (rule ok_iff[symmetric]) (use ne' len in simp_all)
  finally show ?thesis .
qed

subsection \<open>The scenarios of the specification and of the tests\<close>

lemma scenario_two_cluster_linear:
  "fst (run_Validate test_uri_ok (two_clusters [''ch-1'', ''ch-2'']) None ''c1'' [''ch-1'', ''ch-2''])
     = None
   \<and> \<not> IsPChannelIncreasing (snd (run_Validate test_uri_ok (two_clusters [''ch-1'', ''ch-2''])
          None ''c1'' [''ch-1'', ''ch-2'']))"
  by (simp add: validator_defs sample_defs)

lemma scenario_whitespace_cluster_id:
  "fst (run_Validate test_uri_ok
     (makeConfig [makeCluster ''cluster 1'' ''localhost:19530'' ''t'' [''ch-1'']] [])
     None ''cluster 1'' [''ch-1''])
   = Some (ErrClusterIDWhitespace 0 ''cluster 1'')"
  by (simp add: validator_defs sample_defs makeConfig_def)

lemma scenario_inconsistent_slot_count:
  "fst (run_Validate test_uri_ok
     (makeConfig [makeCluster ''c1'' ''localhost:19530'' ''t'' [''ch-1'', ''ch-2''],
                  makeCluster ''c2'' ''localhost:19531'' ''t'' [''ch-1'']] [])
     None ''c1'' [''ch-1'', ''ch-2''])
   = Some (ErrPChannelCount ''c2'' 1 2 ''c1'')"
  by (simp add: validator_defs sample_defs makeConfig_def)

lemma scenario_star_violation:
  "\<exists>c x y. fst (run_Validate test_uri_ok (not_a_star [''ch-1'']) None ''c1'' [''ch-1''])
     = Some (ErrNotStar c x y)"
  by (simp add: validator_defs sample_defs)

lemma scenario_growth_with_new_cluster:
  "fst (run_Validate test_uri_ok (three_clusters [''ch-1'', ''ch-2'']) (two_clusters [''ch-1''])
     ''c1'' [''ch-1'', ''ch-2''])
   = Some (ErrGrowthClusterCount 2 3)"
  by (simp add: validator_defs sample_defs)

lemma scenario_token_change:
  "fst (run_Validate test_uri_ok (two_clusters [''ch-1'']) (two_clusters_old_token [''ch-1''])
     ''c1'' [''ch-1''])
   = Some (ErrTokenChanged ''c2'')"
  by (simp add: validator_defs sample_defs)

lemma scenario_prefix_reorder:
  "fst (run_Validate test_uri_ok
     (makeConfig [makeCluster ''c1'' ''localhost:19530'' ''t'' [''ch-2'', ''ch-1'', ''ch-3'']] [])
     (makeConfig [makeCluster ''c1'' ''localhost:19530'' ''t'' [''ch-1'', ''ch-2'']] [])
     ''c1'' [''ch-1'', ''ch-2'', ''ch-3''])
   = Some (ErrPChannelsNotPreserved ''c1'' [''ch-1'', ''ch-2''] [''ch-2'', ''ch-1'', ''ch-3''])"
  by (simp add: validator_defs sample_defs makeConfig_def)

lemma scenario_topology_changed_during_growth:
  "fst (run_Validate test_uri_ok
     (makeConfig [makeCluster ''c1'' ''localhost:19530'' ''t'' [''ch-1'', ''ch-2''],
                  makeCluster ''c2'' ''localhost:19531'' ''t'' [''ch-1'', ''ch-2'']]
                 [makeEdge ''c2'' ''c1''])
     (two_clusters [''ch-1'']) ''c1'' [''ch-1'', ''ch-2''])
   = Some (ErrGrowthEdgeMissing ''c2->c1'')"
  by (simp add: validator_defs sample_defs makeConfig_def)

subsection \<open>Permuted local pchannels: the same error\<close>

lemma validateRelevance_with_inputs:
  assumes "mset a = mset (currentPChannels v)"
  shows "validateRelevance (with_inputs a b v) = validateRelevance v
     \<or> (\<exists>p. validateRelevance v = Some (ErrPChannelsMismatch (currentPChannels v) p)
            \<and> validateRelevance (with_inputs a b v) = Some (ErrPChannelsMismatch a p))"
  using assms by (auto simp: validateRelevance_def equalIgnoreOrder_iff split: option.splits)

lemma run_Validate_permute_error:
  assumes m: "mset lc' = mset lc"
  shows "fst (run_Validate pu inc cur l lc') = fst (run_Validate pu inc cur l lc)
     \<or> (\<exists>p. fst (run_Validate pu inc cur l lc) = Some (ErrPChannelsMismatch lc p)
            \<and> fst (run_Validate pu inc cur l lc') = Some (ErrPChannelsMismatch lc' p))"
proof -
  let ?v = "NewReplicateConfigValidator inc cur l lc"
  let ?w = "NewReplicateConfigValidator inc cur l lc'"
  have w: "?w = with_inputs lc' cur ?v"
    by (simp add: NewReplicateConfigValidator_def with_inputs_def)
  have basic_w: "validateClusterBasic pu cls ?w = (r, with_inputs lc' cur v1)"
    if "validateClusterBasic pu cls ?v = (r, v1)" for cls r v1
    unfolding w using that by (simp add: validateClusterBasic_with_inputs)
  have fields: "currentPChannels v1 = lc" "currentConfig v1 = cur" "incomingConfig v1 = inc"
    if b: "validateClusterBasic pu cls ?v = (r, v1)" for cls r v1
    by (subst validateClusterBasic_state[OF b], simp)+
  have after: "Validate pu ?w =
     (case validateRelevance (with_inputs lc' cur v1) of Some e \<Rightarrow> (Some e, with_inputs lc' cur v1)
      | None \<Rightarrow> (case validateTopologyEdgeUniqueness v1 (GetCrossClusterTopology inc) of
           Some e \<Rightarrow> (Some e, with_inputs lc' cur v1)
         | None \<Rightarrow> (case validateTopologyTypeConstraint v1 (GetCrossClusterTopology inc) of
             Some e \<Rightarrow> (Some e, with_inputs lc' cur v1)
           | None \<Rightarrow> if cur \<noteq> None then validateConfigComparison (with_inputs lc' cur v1)
                      else (None, with_inputs lc' cur v1))))"
    if i: "incomingConfig ?v \<noteq> None" "GetClusters (incomingConfig ?v) \<noteq> []"
      and b: "validateClusterBasic pu (GetClusters (incomingConfig ?v)) ?v = (None, v1)" for v1
  proof -
    from i have i': "incomingConfig ?w \<noteq> None" "GetClusters (incomingConfig ?w) \<noteq> []" by simp_all
    from basic_w[OF b] have b': "validateClusterBasic pu (GetClusters (incomingConfig ?w)) ?w
        = (None, with_inputs lc' cur v1)" by simp
    show ?thesis
      using Validate_after_basic[OF i' b']
      unfolding with_inputs_fields validateTopologyEdgeUniqueness_with_inputs
        validateTopologyTypeConstraint_with_inputs fields(3)[OF b] .
  qed
  let ?goal = "fst (Validate pu ?w) = fst (Validate pu ?v)
     \<or> (\<exists>p. fst (Validate pu ?v) = Some (ErrPChannelsMismatch lc p)
            \<and> fst (Validate pu ?w) = Some (ErrPChannelsMismatch lc' p))"
  have ?goal
  proof (cases rule: Validate_cases[of ?v pu])
    case nil
    then show ?thesis by (simp add: Validate_def)
  next
    case empty
    then have "Validate pu ?w = (Some ErrClustersEmpty, ?w)" by (simp add: Validate_def)
    with empty show ?thesis by simp
  next
    case (basic e v1)
    from basic(1,2) have i': "incomingConfig ?w \<noteq> None" "GetClusters (incomingConfig ?w) \<noteq> []"
      by simp_all
    from basic_w[OF basic(3)] have "validateClusterBasic pu (GetClusters (incomingConfig ?w)) ?w
        = (Some e, with_inputs lc' cur v1)" by simp
    from Validate_basic_error[OF i' this] basic(4) show ?thesis by simp
  next
    case (relevance e v1)
    note A = after[OF relevance(1,2,3)]
    have "mset lc' = mset (currentPChannels v1)" using m fields(1)[OF relevance(3)] by simp
    from validateRelevance_with_inputs[OF this, of cur] relevance(4)
    consider "validateRelevance (with_inputs lc' cur v1) = Some e"
      | p where "e = ErrPChannelsMismatch lc p"
          "validateRelevance (with_inputs lc' cur v1) = Some (ErrPChannelsMismatch lc' p)"
      using fields(1)[OF relevance(3)] by auto
    then show ?thesis
    proof cases
      case 1
      with A relevance(5) show ?thesis by simp
    next
      case 2
      with A relevance(5) show ?thesis by simp
    qed
  next
    case (edges e v1)
    note A = after[OF edges(1,2,3)]
    have "mset lc' = mset (currentPChannels v1)" using m fields(1)[OF edges(3)] by simp
    from validateRelevance_with_inputs[OF this, of cur] edges(4)
    have "validateRelevance (with_inputs lc' cur v1) = None" by auto
    with A edges(5,6) show ?thesis by simp
  next
    case (star e v1)
    note A = after[OF star(1,2,3)]
    have "mset lc' = mset (currentPChannels v1)" using m fields(1)[OF star(3)] by simp
    from validateRelevance_with_inputs[OF this, of cur] star(4)
    have "validateRelevance (with_inputs lc' cur v1) = None" by auto
    with A star(5,6,7) show ?thesis by simp
  next
    case (transition v1)
    note A = after[OF transition(1,2,3)]
    have "mset lc' = mset (currentPChannels v1)" using m fields(1)[OF transition(3)] by simp
    from validateRelevance_with_inputs[OF this, of cur] transition(4)
    have r: "validateRelevance (with_inputs lc' cur v1) = None" by auto
    have "validateConfigComparison (with_inputs lc' cur v1)
        = on_state (with_inputs lc' cur) (validateConfigComparison v1)"
      using validateConfigComparison_with_inputs[of lc' v1] fields(2)[OF transition(3)] by simp
    with A r transition(5,6,7,8) show ?thesis by (simp add: on_state_def)
  next
    case (first_install v1)
    note A = after[OF first_install(1,2,3)]
    have "mset lc' = mset (currentPChannels v1)" using m fields(1)[OF first_install(3)] by simp
    from validateRelevance_with_inputs[OF this, of cur] first_install(4)
    have r: "validateRelevance (with_inputs lc' cur v1) = None" by auto
    with A first_install(5,6,7,8) show ?thesis by simp
  qed
  then show ?thesis by (simp add: run_Validate_def)
qed

section \<open>The claims\<close>

text \<open>
  C1. When \<^verbatim>\<open>Validate\<close> succeeds and the incoming edge list is not empty, exactly one
  declared cluster ID \<open>C\<close> is the source of every edge and the target of none; every other
  declared cluster ID is the target of exactly one edge and the source of none; the
  cluster IDs are pairwise distinct, and there is one edge fewer than there are clusters.
\<close>

theorem C1_star_of_accepted_configuration:
  assumes ok: "fst (run_Validate pu inc cur l lc) = None"
    and ne: "GetCrossClusterTopology inc \<noteq> []"
  shows "(\<exists>!C. C \<in> set (map GetClusterId (GetClusters inc))
            \<and> (\<forall>e \<in> set (GetCrossClusterTopology inc). GetSourceClusterId e = C)
            \<and> (\<forall>e \<in> set (GetCrossClusterTopology inc). GetTargetClusterId e \<noteq> C))
         \<and> (\<forall>C D. C \<in> set (map GetClusterId (GetClusters inc))
                \<and> (\<forall>e \<in> set (GetCrossClusterTopology inc). GetSourceClusterId e = C)
                \<and> (\<forall>e \<in> set (GetCrossClusterTopology inc). GetTargetClusterId e \<noteq> C)
                \<and> D \<in> set (map GetClusterId (GetClusters inc)) \<and> D \<noteq> C
              \<longrightarrow> in_count (GetCrossClusterTopology inc) D = 1
                  \<and> out_count (GetCrossClusterTopology inc) D = 0)
         \<and> distinct (map GetClusterId (GetClusters inc))
         \<and> int (length (GetCrossClusterTopology inc)) = int (length (GetClusters inc)) - 1"
proof -
  let ?ts = "GetCrossClusterTopology inc"
  let ?ids = "map GetClusterId (GetClusters inc)"
  let ?v1 = "indexed inc (NewReplicateConfigValidator inc cur l lc)"
  note V = run_Validate_ok[OF ok]
  have keys: "map fst (clusterMap ?v1) = ?ids" by simp
  have noempty: "[] \<notin> set (map fst (clusterMap ?v1))" using V(5) by auto
  from star_shape[OF V(8) ne noempty] obtain c where
    c: "c \<in> set ?ids" and outc: "int (out_count ?ts c) = int (length (GetClusters inc)) - 1"
    and inc0: "in_count ?ts c = 0"
    and leaves: "\<forall>k \<in> set ?ids. k \<noteq> c \<longrightarrow> in_count ?ts k = 1 \<and> out_count ?ts k = 0"
    by auto
  from validateTopologyEdgeUniqueness_ok(1)[OF V(7)]
  have ends: "\<forall>t \<in> set ?ts. GetSourceClusterId t \<in> set ?ids" by simp
  have src: "\<forall>t \<in> set ?ts. GetSourceClusterId t = c"
  proof
    fix t assume t: "t \<in> set ?ts"
    show "GetSourceClusterId t = c"
    proof (rule ccontr)
      assume "GetSourceClusterId t \<noteq> c"
      with ends t leaves have "out_count ?ts (GetSourceClusterId t) = 0" by blast
      with t show False by (auto simp: out_count_zero)
    qed
  qed
  have tgt: "\<forall>t \<in> set ?ts. GetTargetClusterId t \<noteq> c"
    using inc0 by (simp add: in_count_zero)
  have len: "int (length ?ts) = int (length (GetClusters inc)) - 1"
    using outc out_count_all[OF src] by simp
  have uniq: "C = c" if "\<forall>e \<in> set ?ts. GetSourceClusterId e = C" for C
  proof -
    from ne obtain t where "t \<in> set ?ts" by (cases ?ts) auto
    with that src show ?thesis by metis
  qed
  have one: "\<exists>!C. C \<in> set ?ids \<and> (\<forall>e \<in> set ?ts. GetSourceClusterId e = C)
            \<and> (\<forall>e \<in> set ?ts. GetTargetClusterId e \<noteq> C)"
  proof (rule ex1I[of _ c])
    show "c \<in> set ?ids \<and> (\<forall>e \<in> set ?ts. GetSourceClusterId e = c)
            \<and> (\<forall>e \<in> set ?ts. GetTargetClusterId e \<noteq> c)"
      using c src tgt by blast
  next
    fix C assume "C \<in> set ?ids \<and> (\<forall>e \<in> set ?ts. GetSourceClusterId e = C)
            \<and> (\<forall>e \<in> set ?ts. GetTargetClusterId e \<noteq> C)"
    then show "C = c" using uniq by blast
  qed
  have others: "\<forall>C D. C \<in> set ?ids \<and> (\<forall>e \<in> set ?ts. GetSourceClusterId e = C)
                \<and> (\<forall>e \<in> set ?ts. GetTargetClusterId e \<noteq> C) \<and> D \<in> set ?ids \<and> D \<noteq> C
              \<longrightarrow> in_count ?ts D = 1 \<and> out_count ?ts D = 0"
  proof (intro allI impI)
    fix C D
    assume a: "C \<in> set ?ids \<and> (\<forall>e \<in> set ?ts. GetSourceClusterId e = C)
                \<and> (\<forall>e \<in> set ?ts. GetTargetClusterId e \<noteq> C) \<and> D \<in> set ?ids \<and> D \<noteq> C"
    then have "C = c" using uniq by blast
    with a leaves show "in_count ?ts D = 1 \<and> out_count ?ts D = 0" by blast
  qed
  from one others V(4) len show ?thesis by blast
qed

theorem C1_star_of_accepted_configuration_witness:
  "fst (run_Validate test_uri_ok (three_clusters [''ch-1'']) None ''c1'' [''ch-1'']) = None
   \<and> GetCrossClusterTopology (three_clusters [''ch-1'']) \<noteq> []
   \<and> (\<exists>!C. C \<in> set (map GetClusterId (GetClusters (three_clusters [''ch-1''])))
         \<and> (\<forall>e \<in> set (GetCrossClusterTopology (three_clusters [''ch-1''])). GetSourceClusterId e = C)
         \<and> (\<forall>e \<in> set (GetCrossClusterTopology (three_clusters [''ch-1''])). GetTargetClusterId e \<noteq> C))
   \<and> in_count (GetCrossClusterTopology (three_clusters [''ch-1''])) ''c3'' = 1
   \<and> out_count (GetCrossClusterTopology (three_clusters [''ch-1''])) ''c3'' = 0
   \<and> int (length (GetCrossClusterTopology (three_clusters [''ch-1''])))
       = int (length (GetClusters (three_clusters [''ch-1'']))) - 1"
proof -
  let ?ts = "GetCrossClusterTopology (three_clusters [''ch-1''])"
  let ?ids = "map GetClusterId (GetClusters (three_clusters [''ch-1'']))"
  have h1: "fst (run_Validate test_uri_ok (three_clusters [''ch-1'']) None ''c1'' [''ch-1'']) = None"
    by (simp add: three_clusters_accepted)
  have h2: "?ts \<noteq> []"
    by (simp add: three_clusters_def)
  have c1: "''c1'' \<in> set ?ids \<and> (\<forall>e \<in> set ?ts. GetSourceClusterId e = ''c1'')
      \<and> (\<forall>e \<in> set ?ts. GetTargetClusterId e \<noteq> ''c1'') \<and> ''c3'' \<in> set ?ids \<and> ''c3'' \<noteq> ''c1''"
    by (simp add: sample_defs)
  note T = C1_star_of_accepted_configuration[OF h1 h2]
  from T c1 have "in_count ?ts ''c3'' = 1 \<and> out_count ?ts ''c3'' = 0" by blast
  with T h1 h2 show ?thesis by blast
qed

text \<open>
  C2. While pchannels grow, \<^verbatim>\<open>Validate\<close> is to reject an incoming configuration whose
  edges are not the current ones. The code compares the edges by the string
  \<^verbatim>\<open>source + "->" + target\<close>, and two different edges can have the same string: with
  clusters \<^verbatim>\<open>x\<close> and \<^verbatim>\<open>x->x\<close>, the current edge from \<^verbatim>\<open>x->x\<close> to \<^verbatim>\<open>x\<close> and the incoming
  edge from \<^verbatim>\<open>x\<close> to \<^verbatim>\<open>x->x\<close> are both \<^verbatim>\<open>x->x->x\<close>. Here the current configuration is
  valid by itself, a cluster of both configurations grows, the edge is reversed, and
  \<^verbatim>\<open>Validate\<close> succeeds with \<^verbatim>\<open>IsPChannelIncreasing\<close> true.
\<close>

theorem C2_reversed_edge_accepted_while_growing:
  "fst (run_Validate test_uri_ok (arrow_forward [''ch-1'', ''ch-2'']) (arrow_backward [''ch-1''])
          ''x'' [''ch-1'', ''ch-2'']) = None
   \<and> IsPChannelIncreasing (snd (run_Validate test_uri_ok (arrow_forward [''ch-1'', ''ch-2''])
          (arrow_backward [''ch-1'']) ''x'' [''ch-1'', ''ch-2'']))
   \<and> (\<exists>c \<in> set (GetClusters (arrow_forward [''ch-1'', ''ch-2''])). \<exists>cu.
          current_index (arrow_backward [''ch-1'']) (GetClusterId c) = Some cu \<and> grows cu c)
   \<and> set (map edge_pair (GetCrossClusterTopology (arrow_forward [''ch-1'', ''ch-2''])))
        \<noteq> set (map edge_pair (GetCrossClusterTopology (arrow_backward [''ch-1''])))
   \<and> set (map GetClusterId (GetClusters (arrow_forward [''ch-1'', ''ch-2''])))
        = set (map GetClusterId (GetClusters (arrow_backward [''ch-1''])))
   \<and> fst (run_Validate test_uri_ok (arrow_backward [''ch-1'']) None ''x'' [''ch-1'']) = None"
proof -
  have g: "\<exists>c \<in> set (GetClusters (arrow_forward [''ch-1'', ''ch-2''])). \<exists>cu.
          current_index (arrow_backward [''ch-1'']) (GetClusterId c) = Some cu \<and> grows cu c"
    by (simp add: sample_defs current_index_def grows_def)
  have "(''x'', ''x->x'') \<in> set (map edge_pair (GetCrossClusterTopology (arrow_forward [''ch-1'', ''ch-2''])))"
    and "(''x'', ''x->x'') \<notin> set (map edge_pair (GetCrossClusterTopology (arrow_backward [''ch-1''])))"
    by (simp_all add: sample_defs edge_pair_def)
  then have e: "set (map edge_pair (GetCrossClusterTopology (arrow_forward [''ch-1'', ''ch-2''])))
        \<noteq> set (map edge_pair (GetCrossClusterTopology (arrow_backward [''ch-1''])))"
    by metis
  have c: "set (map GetClusterId (GetClusters (arrow_forward [''ch-1'', ''ch-2''])))
        = set (map GetClusterId (GetClusters (arrow_backward [''ch-1''])))"
    by (simp add: sample_defs)
  show ?thesis
    using g e c arrow_backward_accepted
    by (simp add: arrow_accepted IsPChannelIncreasing_def)
qed

text \<open>
  C3. When \<^verbatim>\<open>Validate\<close> succeeds and \<^verbatim>\<open>IsPChannelIncreasing\<close> is true afterwards,
  the pchannels of every incoming cluster whose ID the current configuration has start
  with the pchannels of that current cluster, position by position, and for at least one
  such cluster they are strictly longer.
\<close>

theorem C3_growth_is_append_only:
  assumes ok: "fst (run_Validate pu inc cur l lc) = None"
    and g: "IsPChannelIncreasing (snd (run_Validate pu inc cur l lc))"
  shows "(\<forall>c \<in> set (GetClusters inc). \<forall>cu. current_index cur (GetClusterId c) = Some cu \<longrightarrow>
            prefix (GetPchannels cu) (GetPchannels c))
         \<and> (\<exists>c \<in> set (GetClusters inc). \<exists>cu. current_index cur (GetClusterId c) = Some cu
               \<and> length (GetPchannels cu) < length (GetPchannels c))"
proof -
  let ?v1 = "indexed inc (NewReplicateConfigValidator inc cur l lc)"
  note V = run_Validate_ok[OF ok]
  have cur: "cur \<noteq> None"
  proof
    assume "cur = None"
    with V(9) g show False by (simp add: IsPChannelIncreasing_def)
  qed
  with V(9) have run: "run_Validate pu inc cur l lc = validateConfigComparison ?v1" by simp
  obtain v' where c: "validateConfigComparison ?v1 = (None, v')"
    using ok run by (cases "validateConfigComparison ?v1") auto
  note T = validateConfigComparison_ok[OF c]
  from g run c have "isPChannelIncreasing v'" by (simp add: IsPChannelIncreasing_def)
  with T(2) have "\<exists>c \<in> set (GetClusters inc). \<exists>cu.
      current_index cur (GetClusterId c) = Some cu \<and> grows cu c"
    by (cases "\<exists>c \<in> set (GetClusters inc). \<exists>cu.
      current_index cur (GetClusterId c) = Some cu \<and> grows cu c") auto
  with T(1) show ?thesis by (simp add: grows_def)
qed

theorem C3_growth_is_append_only_witness:
  "fst (run_Validate test_uri_ok (two_clusters [''ch-1'', ''ch-2'']) (two_clusters [''ch-1''])
          ''c1'' [''ch-1'', ''ch-2'']) = None
   \<and> IsPChannelIncreasing (snd (run_Validate test_uri_ok (two_clusters [''ch-1'', ''ch-2''])
          (two_clusters [''ch-1'']) ''c1'' [''ch-1'', ''ch-2'']))
   \<and> (\<exists>c \<in> set (GetClusters (two_clusters [''ch-1'', ''ch-2''])). \<exists>cu.
          current_index (two_clusters [''ch-1'']) (GetClusterId c) = Some cu
          \<and> length (GetPchannels cu) < length (GetPchannels c))"
proof -
  note h = two_clusters_growth
  from C3_growth_is_append_only[OF h[THEN conjunct1] h[THEN conjunct2]] h show ?thesis by blast
qed




text \<open>
  C5. A configuration \<open>x\<close> that \<^verbatim>\<open>Validate\<close> accepts without a current configuration is
  accepted as a transition from itself, and \<^verbatim>\<open>IsPChannelIncreasing\<close> is false afterwards.
\<close>

theorem C5_self_transition_accepted:
  assumes ok: "fst (run_Validate pu x None l lc) = None"
  shows "fst (run_Validate pu x x l lc) = None
         \<and> \<not> IsPChannelIncreasing (snd (run_Validate pu x x l lc))"
proof -
  let ?v1 = "indexed x (NewReplicateConfigValidator x x l lc)"
  note V = run_Validate_ok[OF ok]
  have same: "\<forall>c \<in> set (GetClusters x). \<forall>cu.
                 current_index x (GetClusterId c) = Some cu \<longrightarrow> unchanged cu c"
  proof (intro ballI allI impI)
    fix c cu assume c: "c \<in> set (GetClusters x)" and cu: "current_index x (GetClusterId c) = Some cu"
    from build_current_map_member[OF c _ V(4)] V(5)
    have "current_index x (GetClusterId c) = Some c" by (simp add: current_index_def)
    with cu have "cu = c" by simp
    then show "unchanged cu c" by (simp add: unchanged_def)
  qed
  have "validateConfigComparison ?v1 = (None, ?v1)"
    using same by (intro validateConfigComparison_unchanged) simp_all
  with run_Validate_None_current[OF ok, of x] show ?thesis
    by (simp add: IsPChannelIncreasing_def)
qed

theorem C5_self_transition_accepted_witness:
  "fst (run_Validate test_uri_ok (two_clusters [''ch-1'', ''ch-2'']) None ''c1'' [''ch-1'', ''ch-2''])
     = None
   \<and> fst (run_Validate test_uri_ok (two_clusters [''ch-1'', ''ch-2''])
          (two_clusters [''ch-1'', ''ch-2'']) ''c1'' [''ch-1'', ''ch-2'']) = None
   \<and> \<not> IsPChannelIncreasing (snd (run_Validate test_uri_ok (two_clusters [''ch-1'', ''ch-2''])
          (two_clusters [''ch-1'', ''ch-2'']) ''c1'' [''ch-1'', ''ch-2'']))"
  using C5_self_transition_accepted[OF two_clusters_accepted] two_clusters_accepted by blast

text \<open>
  C6. \<^verbatim>\<open>Validate\<close> succeeds only if the local cluster ID is the ID of a declared cluster
  whose pchannels and the local pchannels have the same length and the same elements with
  the same counts; and a permutation of the local pchannels succeeds exactly when the
  local pchannels do.
\<close>

theorem C6_relevance_compares_multisets:
  "(fst (run_Validate pu inc cur l lc) = None \<longrightarrow>
      (\<exists>c \<in> set (GetClusters inc). GetClusterId c = l
          \<and> length lc = length (GetPchannels c) \<and> mset lc = mset (GetPchannels c)))
   \<and> (mset lc = mset lc' \<longrightarrow>
        (fst (run_Validate pu inc cur l lc) = None) = (fst (run_Validate pu inc cur l lc') = None))"
proof (intro conjI impI)
  assume ok: "fst (run_Validate pu inc cur l lc) = None"
  note V = run_Validate_ok[OF ok]
  from V(6) obtain c where c: "map_of (map entry (GetClusters inc)) l = Some c"
    and m: "mset lc = mset (GetPchannels c)"
    by (auto simp: validateRelevance_iff)
  from map_of_SomeD[OF c] have "c \<in> set (GetClusters inc)" "GetClusterId c = l"
    by (auto simp: entry_def)
  with m mset_eq_length[OF m]
  show "\<exists>c \<in> set (GetClusters inc). GetClusterId c = l
          \<and> length lc = length (GetPchannels c) \<and> mset lc = mset (GetPchannels c)"
    by blast
next
  assume m: "mset lc = mset lc'"
  from run_Validate_permute[OF m] run_Validate_permute[OF m[symmetric]]
  show "(fst (run_Validate pu inc cur l lc) = None) = (fst (run_Validate pu inc cur l lc') = None)"
    by blast
qed

theorem C6_relevance_compares_multisets_witness:
  "fst (run_Validate test_uri_ok (two_clusters [''ch-1'', ''ch-2'']) None ''c1'' [''ch-1'', ''ch-2''])
     = None
   \<and> mset [''ch-1'', ''ch-2''] = mset [''ch-2'', ''ch-1'']
   \<and> (\<exists>c \<in> set (GetClusters (two_clusters [''ch-1'', ''ch-2''])). GetClusterId c = ''c1''
          \<and> length [''ch-1'', ''ch-2''] = length (GetPchannels c)
          \<and> mset [''ch-1'', ''ch-2''] = mset (GetPchannels c))
   \<and> fst (run_Validate test_uri_ok (two_clusters [''ch-1'', ''ch-2'']) None ''c1'' [''ch-2'', ''ch-1''])
     = None"
proof -
  have m: "mset [''ch-1'', ''ch-2''] = mset [''ch-2'', ''ch-1'']" by simp
  from C6_relevance_compares_multisets[of test_uri_ok "two_clusters [''ch-1'', ''ch-2'']" None
      "''c1''" "[''ch-1'', ''ch-2'']" "[''ch-2'', ''ch-1'']"] two_clusters_accepted m
  show ?thesis by blast
qed

text \<open>
  C7. After the two pre-checks the phases run in the order cluster-basic, relevance,
  edge uniqueness, star shape, transition, and \<^verbatim>\<open>Validate\<close> returns the error of the
  first phase that fails, an error that only this phase raises, whatever the later
  phases would return.
\<close>

theorem C7_fail_fast:
  assumes inc: "incomingConfig v \<noteq> None" and ne: "GetClusters (incomingConfig v) \<noteq> []"
  shows
    "(\<forall>e v1. validateClusterBasic pu (GetClusters (incomingConfig v)) v = (Some e, v1)
        \<longrightarrow> Validate pu v = (Some e, v1) \<and> phase_of e = ClusterBasicPhase)
   \<and> (\<forall>e v1. validateClusterBasic pu (GetClusters (incomingConfig v)) v = (None, v1)
          \<and> validateRelevance v1 = Some e
        \<longrightarrow> Validate pu v = (Some e, v1) \<and> phase_of e = RelevancePhase)
   \<and> (\<forall>e v1. validateClusterBasic pu (GetClusters (incomingConfig v)) v = (None, v1)
          \<and> validateRelevance v1 = None
          \<and> validateTopologyEdgeUniqueness v1 (GetCrossClusterTopology (incomingConfig v)) = Some e
        \<longrightarrow> Validate pu v = (Some e, v1) \<and> phase_of e = EdgeUniquenessPhase)
   \<and> (\<forall>e v1. validateClusterBasic pu (GetClusters (incomingConfig v)) v = (None, v1)
          \<and> validateRelevance v1 = None
          \<and> validateTopologyEdgeUniqueness v1 (GetCrossClusterTopology (incomingConfig v)) = None
          \<and> validateTopologyTypeConstraint v1 (GetCrossClusterTopology (incomingConfig v)) = Some e
        \<longrightarrow> Validate pu v = (Some e, v1) \<and> phase_of e = StarShapePhase)
   \<and> (\<forall>e v1 v2. validateClusterBasic pu (GetClusters (incomingConfig v)) v = (None, v1)
          \<and> validateRelevance v1 = None
          \<and> validateTopologyEdgeUniqueness v1 (GetCrossClusterTopology (incomingConfig v)) = None
          \<and> validateTopologyTypeConstraint v1 (GetCrossClusterTopology (incomingConfig v)) = None
          \<and> currentConfig v \<noteq> None
          \<and> validateConfigComparison v1 = (Some e, v2)
        \<longrightarrow> Validate pu v = (Some e, v2) \<and> phase_of e = TransitionPhase)"
proof (intro conjI allI impI)
  fix e v1
  assume b: "validateClusterBasic pu (GetClusters (incomingConfig v)) v = (Some e, v1)"
  from Validate_basic_error[OF inc ne b] show "Validate pu v = (Some e, v1)" .
  from validateClusterBasic_phase[OF b] show "phase_of e = ClusterBasicPhase" .
next
  fix e v1
  assume a: "validateClusterBasic pu (GetClusters (incomingConfig v)) v = (None, v1)
          \<and> validateRelevance v1 = Some e"
  then have b: "validateClusterBasic pu (GetClusters (incomingConfig v)) v = (None, v1)"
    and r: "validateRelevance v1 = Some e" by simp_all
  from Validate_after_basic[OF inc ne b] r show "Validate pu v = (Some e, v1)" by simp
  from validateRelevance_phase[OF r] show "phase_of e = RelevancePhase" .
next
  fix e v1
  assume a: "validateClusterBasic pu (GetClusters (incomingConfig v)) v = (None, v1)
          \<and> validateRelevance v1 = None
          \<and> validateTopologyEdgeUniqueness v1 (GetCrossClusterTopology (incomingConfig v)) = Some e"
  then have b: "validateClusterBasic pu (GetClusters (incomingConfig v)) v = (None, v1)"
    and r: "validateRelevance v1 = None"
    and u: "validateTopologyEdgeUniqueness v1 (GetCrossClusterTopology (incomingConfig v)) = Some e"
    by simp_all
  have i1: "incomingConfig v1 = incomingConfig v"
    by (subst validateClusterBasic_state[OF b]) simp
  from Validate_after_basic[OF inc ne b] r u show "Validate pu v = (Some e, v1)" by (simp add: i1)
  from validateTopologyEdgeUniqueness_phase[OF u] show "phase_of e = EdgeUniquenessPhase" .
next
  fix e v1
  assume a: "validateClusterBasic pu (GetClusters (incomingConfig v)) v = (None, v1)
          \<and> validateRelevance v1 = None
          \<and> validateTopologyEdgeUniqueness v1 (GetCrossClusterTopology (incomingConfig v)) = None
          \<and> validateTopologyTypeConstraint v1 (GetCrossClusterTopology (incomingConfig v)) = Some e"
  then have b: "validateClusterBasic pu (GetClusters (incomingConfig v)) v = (None, v1)"
    and r: "validateRelevance v1 = None"
    and u: "validateTopologyEdgeUniqueness v1 (GetCrossClusterTopology (incomingConfig v)) = None"
    and s: "validateTopologyTypeConstraint v1 (GetCrossClusterTopology (incomingConfig v)) = Some e"
    by simp_all
  have i1: "incomingConfig v1 = incomingConfig v"
    by (subst validateClusterBasic_state[OF b]) simp
  from Validate_after_basic[OF inc ne b] r u s show "Validate pu v = (Some e, v1)" by (simp add: i1)
  from validateTopologyTypeConstraint_phase[OF s] show "phase_of e = StarShapePhase" .
next
  fix e v1 v2
  assume a: "validateClusterBasic pu (GetClusters (incomingConfig v)) v = (None, v1)
          \<and> validateRelevance v1 = None
          \<and> validateTopologyEdgeUniqueness v1 (GetCrossClusterTopology (incomingConfig v)) = None
          \<and> validateTopologyTypeConstraint v1 (GetCrossClusterTopology (incomingConfig v)) = None
          \<and> currentConfig v \<noteq> None
          \<and> validateConfigComparison v1 = (Some e, v2)"
  then have b: "validateClusterBasic pu (GetClusters (incomingConfig v)) v = (None, v1)"
    and r: "validateRelevance v1 = None"
    and u: "validateTopologyEdgeUniqueness v1 (GetCrossClusterTopology (incomingConfig v)) = None"
    and s: "validateTopologyTypeConstraint v1 (GetCrossClusterTopology (incomingConfig v)) = None"
    and c: "currentConfig v \<noteq> None"
    and t: "validateConfigComparison v1 = (Some e, v2)"
    by simp_all
  have i1: "incomingConfig v1 = incomingConfig v" and c1: "currentConfig v1 = currentConfig v"
    by (subst validateClusterBasic_state[OF b], simp)+
  from Validate_after_basic[OF inc ne b] r u s c t show "Validate pu v = (Some e, v2)"
    by (simp add: i1 c1)
  from validateConfigComparison_phase[OF t] show "phase_of e = TransitionPhase" .
qed

theorem C7_fail_fast_witness:
  "Validate test_uri_ok (NewReplicateConfigValidator whitespace_id None ''zz'' [''ch-1''])
     = (Some (ErrClusterIDWhitespace 0 ''cluster 1''),
        NewReplicateConfigValidator whitespace_id None ''zz'' [''ch-1''])
   \<and> validateRelevance (NewReplicateConfigValidator whitespace_id None ''zz'' [''ch-1''])
       = Some (ErrNotIncluded ''zz'')
   \<and> Validate test_uri_ok (NewReplicateConfigValidator (not_a_star [''ch-1'']) None ''zz'' [''ch-1''])
     = (Some (ErrNotIncluded ''zz''),
        indexed (not_a_star [''ch-1''])
          (NewReplicateConfigValidator (not_a_star [''ch-1'']) None ''zz'' [''ch-1'']))
   \<and> validateTopologyTypeConstraint
        (indexed (not_a_star [''ch-1''])
          (NewReplicateConfigValidator (not_a_star [''ch-1'']) None ''zz'' [''ch-1'']))
        (GetCrossClusterTopology (not_a_star [''ch-1'']))
       \<noteq> None"
proof -
  let ?a = "NewReplicateConfigValidator whitespace_id None ''zz'' [''ch-1'']"
  let ?b = "NewReplicateConfigValidator (not_a_star [''ch-1'']) None ''zz'' [''ch-1'']"
  have a1: "incomingConfig ?a \<noteq> None" and a2: "GetClusters (incomingConfig ?a) \<noteq> []"
    by (simp_all add: whitespace_id_def)
  have a3: "validateClusterBasic test_uri_ok (GetClusters (incomingConfig ?a)) ?a
      = (Some (ErrClusterIDWhitespace 0 ''cluster 1''), ?a)"
    by (simp add: validator_defs sample_defs whitespace_id_def)
  have a4: "validateRelevance ?a = Some (ErrNotIncluded ''zz'')"
    by (simp add: validator_defs)
  have b1: "incomingConfig ?b \<noteq> None" and b2: "GetClusters (incomingConfig ?b) \<noteq> []"
    by (simp_all add: not_a_star_def)
  have b3: "validateClusterBasic test_uri_ok (GetClusters (incomingConfig ?b)) ?b
      = (None, indexed (not_a_star [''ch-1'']) ?b)"
    by (simp add: validator_defs sample_defs indexed_def entry_def)
  have b4: "validateRelevance (indexed (not_a_star [''ch-1'']) ?b) = Some (ErrNotIncluded ''zz'')"
    by (simp add: validator_defs sample_defs indexed_def entry_def)
  have b5: "validateTopologyTypeConstraint (indexed (not_a_star [''ch-1'']) ?b)
        (GetCrossClusterTopology (not_a_star [''ch-1''])) \<noteq> None"
    by (simp add: validator_defs sample_defs indexed_def entry_def)
  from C7_fail_fast[OF a1 a2, of test_uri_ok] a3
  have A: "Validate test_uri_ok ?a = (Some (ErrClusterIDWhitespace 0 ''cluster 1''), ?a)"
    by blast
  from C7_fail_fast[OF b1 b2, of test_uri_ok] b3 b4
  have B: "Validate test_uri_ok ?b = (Some (ErrNotIncluded ''zz''), indexed (not_a_star [''ch-1'']) ?b)"
    by blast
  from A a4 B b5 show ?thesis by simp
qed

text \<open>
  C8. An incoming configuration that passes the structural checks (it is accepted without
  a current configuration) and that leaves pchannels, URI and token as they are for every
  cluster ID that the current configuration has too, is accepted as a transition from that
  current configuration, whatever the other clusters and the edges of the two
  configurations are; \<^verbatim>\<open>IsPChannelIncreasing\<close> is false afterwards.
\<close>

theorem C8_non_growth_transition_accepted:
  assumes ok: "fst (run_Validate pu inc None l lc) = None"
    and same: "\<forall>c \<in> set (GetClusters inc). \<forall>cu.
                 current_index cur (GetClusterId c) = Some cu \<longrightarrow> unchanged cu c"
  shows "fst (run_Validate pu inc cur l lc) = None
         \<and> \<not> IsPChannelIncreasing (snd (run_Validate pu inc cur l lc))"
proof -
  let ?v1 = "indexed inc (NewReplicateConfigValidator inc cur l lc)"
  have "validateConfigComparison ?v1 = (None, ?v1)"
    using same by (intro validateConfigComparison_unchanged) simp_all
  with run_Validate_None_current[OF ok, of cur] show ?thesis
    by (simp add: IsPChannelIncreasing_def)
qed

theorem C8_non_growth_transition_accepted_witness:
  "fst (run_Validate test_uri_ok (three_clusters [''ch-1'']) None ''c1'' [''ch-1'']) = None
   \<and> set (map GetClusterId (GetClusters (three_clusters [''ch-1''])))
        \<noteq> set (map GetClusterId (GetClusters (two_clusters [''ch-1''])))
   \<and> set (map topo_key (GetCrossClusterTopology (three_clusters [''ch-1''])))
        \<noteq> set (map topo_key (GetCrossClusterTopology (two_clusters [''ch-1''])))
   \<and> fst (run_Validate test_uri_ok (three_clusters [''ch-1'']) (two_clusters [''ch-1''])
          ''c1'' [''ch-1'']) = None
   \<and> \<not> IsPChannelIncreasing (snd (run_Validate test_uri_ok (three_clusters [''ch-1''])
          (two_clusters [''ch-1'']) ''c1'' [''ch-1'']))"
proof -
  have h1: "fst (run_Validate test_uri_ok (three_clusters [''ch-1'']) None ''c1'' [''ch-1'']) = None"
    by (simp add: three_clusters_accepted)
  have h2: "\<forall>c \<in> set (GetClusters (three_clusters [''ch-1''])). \<forall>cu.
          current_index (two_clusters [''ch-1'']) (GetClusterId c) = Some cu \<longrightarrow> unchanged cu c"
    by (simp add: sample_defs current_index_def unchanged_def)
  have "''c3'' \<in> set (map GetClusterId (GetClusters (three_clusters [''ch-1''])))"
    and "''c3'' \<notin> set (map GetClusterId (GetClusters (two_clusters [''ch-1''])))"
    by (simp_all add: sample_defs)
  then have h3: "set (map GetClusterId (GetClusters (three_clusters [''ch-1''])))
        \<noteq> set (map GetClusterId (GetClusters (two_clusters [''ch-1''])))"
    by metis
  have "''c1->c3'' \<in> set (map topo_key (GetCrossClusterTopology (three_clusters [''ch-1''])))"
    and "''c1->c3'' \<notin> set (map topo_key (GetCrossClusterTopology (two_clusters [''ch-1''])))"
    by (simp_all add: sample_defs topo_key_def edgeKey_def)
  then have h4: "set (map topo_key (GetCrossClusterTopology (three_clusters [''ch-1''])))
        \<noteq> set (map topo_key (GetCrossClusterTopology (two_clusters [''ch-1''])))"
    by metis
  from C8_non_growth_transition_accepted[OF h1 h2] h1 h3 h4 show ?thesis by blast
qed

text \<open>
  C9. For a cluster map (its keys pairwise distinct, as in every map) and a non-empty edge
  list that passes the edge-uniqueness check, at most one cluster has an out-degree of the
  number of clusters minus one and an in-degree of zero, and the star-shape check does not
  return the error of several centers.
\<close>

theorem C9_multiple_centers_unreachable:
  assumes dk: "distinct (map fst (clusterMap v))"
    and ne: "ts \<noteq> []"
    and eu: "validateTopologyEdgeUniqueness v ts = None"
  shows "(\<forall>a b. is_center (map fst (clusterMap v)) ts a \<and> is_center (map fst (clusterMap v)) ts b
            \<longrightarrow> a = b)
         \<and> validateTopologyTypeConstraint v ts \<noteq> Some ErrMultipleCenters"
  using no_two_centers[OF dk eu] star_check_not_multiple[OF dk eu] by blast

theorem C9_multiple_centers_unreachable_witness:
  "distinct (map fst (clusterMap (indexed (three_clusters [''ch-1''])
       (NewReplicateConfigValidator (three_clusters [''ch-1'']) None ''c1'' [''ch-1'']))))
   \<and> GetCrossClusterTopology (three_clusters [''ch-1'']) \<noteq> []
   \<and> validateTopologyEdgeUniqueness (indexed (three_clusters [''ch-1''])
         (NewReplicateConfigValidator (three_clusters [''ch-1'']) None ''c1'' [''ch-1'']))
       (GetCrossClusterTopology (three_clusters [''ch-1''])) = None
   \<and> is_center (map fst (clusterMap (indexed (three_clusters [''ch-1''])
         (NewReplicateConfigValidator (three_clusters [''ch-1'']) None ''c1'' [''ch-1'']))))
       (GetCrossClusterTopology (three_clusters [''ch-1''])) ''c1''
   \<and> validateTopologyTypeConstraint (indexed (three_clusters [''ch-1''])
         (NewReplicateConfigValidator (three_clusters [''ch-1'']) None ''c1'' [''ch-1'']))
       (GetCrossClusterTopology (three_clusters [''ch-1''])) \<noteq> Some ErrMultipleCenters"
proof -
  let ?v = "indexed (three_clusters [''ch-1''])
       (NewReplicateConfigValidator (three_clusters [''ch-1'']) None ''c1'' [''ch-1''])"
  let ?ts = "GetCrossClusterTopology (three_clusters [''ch-1''])"
  have h1: "distinct (map fst (clusterMap ?v))"
    by (simp add: sample_defs indexed_def entry_def)
  have h2: "?ts \<noteq> []" by (simp add: sample_defs)
  have h3: "validateTopologyEdgeUniqueness ?v ?ts = None"
    by (simp add: validator_defs sample_defs indexed_def entry_def)
  have h4: "is_center (map fst (clusterMap ?v)) ?ts ''c1''"
    by (simp add: is_center_def in_count_def out_count_def sample_defs indexed_def entry_def)
  from C9_multiple_centers_unreachable[OF h1 h2 h3] h1 h2 h3 h4 show ?thesis by blast
qed

text \<open>
  C10. With the empty string as the local cluster ID, \<^verbatim>\<open>Validate\<close> fails for every
  incoming and current configuration: it returns the error that the local cluster is not
  among the clusters, or an error of the pre-checks or of the cluster-basic check.
\<close>

theorem C10_empty_local_cluster_id_rejected:
  "\<exists>e. fst (run_Validate pu inc cur [] lc) = Some e
       \<and> (e = ErrNotIncluded [] \<or> phase_of e = PreCheck \<or> phase_of e = ClusterBasicPhase)"
proof -
  let ?v = "NewReplicateConfigValidator inc cur [] lc"
  have not_found: "validateRelevance v1 = Some (ErrNotIncluded [])"
    if b: "validateClusterBasic pu (GetClusters (incomingConfig ?v)) ?v = (None, v1)" for v1
  proof -
    note B = validateClusterBasic_ok[OF b]
    from B(1) have cm: "clusterMap v1 = map entry (GetClusters inc)"
      and l: "currentClusterID v1 = []" by simp_all
    have "[] \<notin> fst ` set (map entry (GetClusters inc))"
      using B(3) by (auto simp: entry_def)
    then have "map_of (clusterMap v1) [] = None"
      unfolding cm by (simp add: map_of_eq_None_iff)
    with l show ?thesis by (simp add: validateRelevance_def)
  qed
  let ?goal = "\<exists>e. fst (Validate pu ?v) = Some e
       \<and> (e = ErrNotIncluded [] \<or> phase_of e = PreCheck \<or> phase_of e = ClusterBasicPhase)"
  have ?goal
  proof (cases rule: Validate_cases[of ?v pu])
    case nil
    then show ?thesis by simp
  next
    case empty
    then show ?thesis by simp
  next
    case (basic e v1)
    from validateClusterBasic_phase[OF basic(3)] basic(4) show ?thesis by simp
  next
    case (relevance e v1)
    from not_found[OF relevance(3)] relevance(4,5) show ?thesis by simp
  next
    case (edges e v1)
    from not_found[OF edges(3)] edges(4) show ?thesis by simp
  next
    case (star e v1)
    from not_found[OF star(3)] star(4) show ?thesis by simp
  next
    case (transition v1)
    from not_found[OF transition(3)] transition(4) show ?thesis by simp
  next
    case (first_install v1)
    from not_found[OF first_install(3)] first_install(4) show ?thesis by simp
  qed
  then show ?thesis by (simp add: run_Validate_def)
qed

end
